theory Spec2Isabelle
  imports Main
begin

section \<open>The VideoRecorder component\<close>

text \<open>
  The repository's one component is the React function component \<open>VideoRecorder\<close>.
  It is embedded as an event-driven state machine:
  \<^item> the \<open>useState\<close> cells and the \<open>useRef\<close> cells are fields of one record;
  \<^item> the browser objects the component holds references to (media streams, media
    recorders, outstanding \<open>getUserMedia\<close> promises, the interval timer) live in an
    explicit store inside the same record, addressed by their index of creation;
  \<^item> every function of the component is a function on that record;
  \<^item> an \<open>async\<close> function is split at its \<open>await\<close>: the part before it runs when the
    function is called and records the constants of the render it closes over, the part
    after it runs when the promise settles and reads those recorded constants;
  \<^item> one step of the machine is one task of the event loop: a handler runs, React renders
    the new state, and the effects whose dependencies changed run.
\<close>

subsection \<open>Browser objects\<close>

datatype facing = User | Environment

datatype screen = ReviewScreen | ErrorScreen | RecordingScreen

text \<open>A \<open>Blob\<close>: its bytes and its type tag. \<open>size_of\<close> is the \<open>size\<close> property.\<close>

record blob =
  bytes :: "nat list"
  mime :: string

definition size_of :: "blob \<Rightarrow> nat" where
  "size_of b = length (bytes b)"

text \<open>\<open>new Blob(parts, {type})\<close> concatenates the parts in order.\<close>

definition new_Blob :: "blob list \<Rightarrow> string \<Rightarrow> blob" where
  "new_Blob parts ty = \<lparr>bytes = concat (map bytes parts), mime = ty\<rparr>"

text \<open>
  \<open>URL.createObjectURL(blob)\<close> returns a non-empty string that refers to the blob, so a
  created URL is always truthy; \<open>videoUrl\<close> below is \<open>None\<close> for \<open>null\<close>.
\<close>

datatype object_url = ObjectURL blob

text \<open>
  A \<open>MediaStream\<close> as the component uses it: the facing mode it was requested with,
  whether its tracks have been stopped, and the \<open>enabled\<close> flag of its audio tracks.
\<close>

record media_stream =
  s_facing :: facing
  s_ended :: bool
  s_audio :: bool

datatype recorder_state = Inactive | Recording

text \<open>
  A \<open>MediaRecorder\<close>: the stream it records, the \<open>mimeType\<close> option it was built with,
  its \<open>state\<close> attribute, and whether \<open>stop()\<close> has queued a \<open>stop\<close> event that has not
  been dispatched yet (\<open>stop()\<close> sets \<open>state\<close> to inactive at once and fires the events
  from a queued task).
\<close>

record media_recorder =
  r_stream :: nat
  r_mime :: "string option"
  r_state :: recorder_state
  r_stop_queued :: bool

text \<open>
  An outstanding call of \<open>startCamera\<close>, suspended at \<open>await getUserMedia\<close>. The
  function closes over the constants \<open>facingMode\<close>, \<open>reviewMode\<close>, \<open>recording\<close> and
  \<open>timeLeft\<close> of the render that created it; the continuation reads these, not the
  state at the time the promise settles.
\<close>

record acquisition =
  q_facingMode :: facing
  q_reviewMode :: bool
  q_recording :: bool
  q_timeLeft :: int
  q_settled :: bool

subsection \<open>Component inputs and outputs\<close>

text \<open>
  \<open>LocationData\<close> is declared in \<open>../types\<close>, which is not part of the sources: it is the
  type parameter \<open>'loc\<close>. \<open>has_onDiscard\<close> tells whether the optional \<open>onDiscard\<close> was
  passed. The props are fixed for the lifetime of the component instance.
\<close>

record 'loc props =
  emergencyId :: string
  emergencyType :: string
  location :: 'loc
  has_onDiscard :: bool

text \<open>
  The identifier is the string \<open>VID-\<close> followed by a reading of \<open>Date.now()\<close>, the
  timestamp is \<open>toISOString()\<close> of a second reading of the clock; both are kept as the
  reading they print.
\<close>

datatype video_id = VID nat

datatype iso_time = ISO nat

record 'loc video_evidence =
  ev_id :: video_id
  ev_url :: object_url
  ev_timestamp :: iso_time
  ev_duration :: int
  ev_emergencyType :: string
  ev_location :: 'loc

text \<open>The calls the component makes to the callbacks it was given, in order.\<close>

datatype 'loc callback = OnSave "'loc video_evidence" | OnDiscard

subsection \<open>State\<close>

text \<open>
  The first seven fields are the \<open>useState\<close> cells, the next three the \<open>useRef\<close> cells
  (a reference is the index of the object in the store). \<open>streams\<close>, \<open>recorders\<close> and
  \<open>acquisitions\<close> are the store; \<open>interval\<close> tells whether the interval set by the timer
  effect is running. \<open>timerStops\<close> counts the calls of \<open>stopRecording\<close> made by the timer
  effect, and \<open>calls\<close> logs the calls of \<open>onSave\<close> and \<open>onDiscard\<close>.
\<close>

record 'loc component =
  recording :: bool
  timeLeft :: int
  isMuted :: bool
  facingMode :: facing
  cameraError :: bool
  reviewMode :: bool
  videoUrl :: "object_url option"
  mediaRecorderRef :: "nat option"
  chunksRef :: "blob list"
  streamRef :: "nat option"
  streams :: "media_stream list"
  recorders :: "media_recorder list"
  acquisitions :: "acquisition list"
  interval :: bool
  timerStops :: nat
  calls :: "'loc callback list"

text \<open>The values of the \<open>useState\<close> and \<open>useRef\<close> initialisers, before the first render.\<close>

definition initial :: "'loc component" where
  "initial =
    \<lparr>recording = False, timeLeft = 60, isMuted = False, facingMode = Environment,
     cameraError = False, reviewMode = False, videoUrl = None,
     mediaRecorderRef = None, chunksRef = [], streamRef = None,
     streams = [], recorders = [], acquisitions = [],
     interval = False, timerStops = 0, calls = []\<rparr>"

text \<open>Updating the object at an address; there is no object outside the store.\<close>

definition modify_at :: "nat \<Rightarrow> ('a \<Rightarrow> 'a) \<Rightarrow> 'a list \<Rightarrow> 'a list" where
  "modify_at i f xs = (if i < length xs then xs[i := f (xs ! i)] else xs)"

subsection \<open>The functions of the component\<close>

text \<open>\<open>stopCamera\<close>: stop every track of the referenced stream and drop the reference.\<close>

definition stopCamera :: "'loc component \<Rightarrow> 'loc component" where
  "stopCamera s =
    (case streamRef s of
       None \<Rightarrow> s
     | Some i \<Rightarrow>
         s\<lparr>streams := modify_at i (\<lambda>m. m\<lparr>s_ended := True\<rparr>) (streams s),
           streamRef := None\<rparr>)"

text \<open>
  How the construction and the start of a \<open>MediaRecorder\<close> can end. \<open>Starts webm\<close>: a
  recorder is built, with \<open>{mimeType: 'video/webm'}\<close> when \<open>webm\<close> holds and by the
  \<open>catch\<close> without options otherwise, and \<open>start()\<close> returns. \<open>ConstructorThrows\<close>: the
  constructor without options throws as well. \<open>StartThrows webm\<close>: a recorder is built
  and \<open>start()\<close> throws.
\<close>

datatype recorder_failure = ConstructorThrows | StartThrows bool

datatype recorder_outcome = Starts bool | Throws recorder_failure

text \<open>
  \<open>startRecordingProcess(stream)\<close>. The function has no handler of its own for an
  exception of the fallback constructor or of \<open>start()\<close>: the result is \<open>Inl\<close> with the
  state reached when the exception leaves the function, \<open>Inr\<close> with the state at its
  return. The constructor throws before anything is assigned; \<open>start()\<close> throws after
  the references are set and before \<open>setRecording(true)\<close>.
\<close>

definition startRecordingProcess ::
  "nat \<Rightarrow> recorder_outcome \<Rightarrow> 'loc component \<Rightarrow> 'loc component + 'loc component" where
  "startRecordingProcess stream outcome s =
    (case outcome of
       Throws ConstructorThrows \<Rightarrow> Inl s
     | Throws (StartThrows webm) \<Rightarrow>
         Inl (s\<lparr>recorders := recorders s @
                [\<lparr>r_stream = stream, r_mime = (if webm then Some ''video/webm'' else None),
                  r_state = Inactive, r_stop_queued = False\<rparr>],
               mediaRecorderRef := Some (length (recorders s)),
               chunksRef := []\<rparr>)
     | Starts webm \<Rightarrow>
         Inr (s\<lparr>recorders := recorders s @
                [\<lparr>r_stream = stream, r_mime = (if webm then Some ''video/webm'' else None),
                  r_state = Recording, r_stop_queued = False\<rparr>],
               mediaRecorderRef := Some (length (recorders s)),
               chunksRef := [],
               recording := True\<rparr>))"

text \<open>The \<open>ondataavailable\<close> handler installed by \<open>startRecordingProcess\<close>.\<close>

definition ondataavailable :: "blob \<Rightarrow> 'loc component \<Rightarrow> 'loc component" where
  "ondataavailable d s =
    (if size_of d > 0 then s\<lparr>chunksRef := chunksRef s @ [d]\<rparr> else s)"

text \<open>The \<open>onstop\<close> handler installed by \<open>startRecordingProcess\<close>.\<close>

definition onstop :: "'loc component \<Rightarrow> 'loc component" where
  "onstop s =
    stopCamera
      (s\<lparr>videoUrl := Some (ObjectURL (new_Blob (chunksRef s) ''video/webm'')),
         reviewMode := True,
         recording := False\<rparr>)"

text \<open>
  \<open>startCamera\<close> up to its \<open>await\<close>: release the referenced stream, clear the error flag
  and call \<open>getUserMedia\<close>. The promise is stored with the constants of the render.
\<close>

definition startCamera :: "'loc component \<Rightarrow> 'loc component" where
  "startCamera s =
    (stopCamera s)
      \<lparr>cameraError := False,
       acquisitions := acquisitions s @
         [\<lparr>q_facingMode = facingMode s, q_reviewMode = reviewMode s,
           q_recording = recording s, q_timeLeft = timeLeft s, q_settled = False\<rparr>]\<rparr>"

text \<open>
  \<open>startCamera\<close> after its \<open>await\<close>, when promise \<open>i\<close> is fulfilled with a new stream:
  the stream is stored in \<open>streamRef\<close>, and the auto-start test
  \<open>!reviewMode && !recording && timeLeft === 60\<close> (\<open>autostart\<close>) reads the constants
  the call closed over. An exception of \<open>startRecordingProcess\<close> is caught by the
  \<open>catch\<close> of \<open>startCamera\<close>, which sets \<open>cameraError\<close>. The assignment of the stream
  to the preview element is not part of the state.
\<close>

definition autostart :: "acquisition \<Rightarrow> bool" where
  "autostart q = (\<not> q_reviewMode q \<and> \<not> q_recording q \<and> q_timeLeft q = 60)"

definition startCamera_resume ::
  "nat \<Rightarrow> recorder_outcome \<Rightarrow> 'loc component \<Rightarrow> 'loc component" where
  "startCamera_resume i outcome s =
    (let q = acquisitions s ! i;
         stream = length (streams s);
         s1 = s\<lparr>acquisitions := modify_at i (\<lambda>a. a\<lparr>q_settled := True\<rparr>) (acquisitions s),
                streams := streams s @
                  [\<lparr>s_facing = q_facingMode q, s_ended = False, s_audio = True\<rparr>],
                streamRef := Some stream\<rparr>
     in if autostart q
        then (case startRecordingProcess stream outcome s1 of
                Inr s2 \<Rightarrow> s2
              | Inl s2 \<Rightarrow> s2\<lparr>cameraError := True\<rparr>)
        else s1)"

text \<open>
  The \<open>catch\<close> branch of \<open>startCamera\<close>, when promise \<open>i\<close> is rejected. The message
  written to the console is not part of the state.
\<close>

definition startCamera_catch :: "nat \<Rightarrow> 'loc component \<Rightarrow> 'loc component" where
  "startCamera_catch i s =
    s\<lparr>acquisitions := modify_at i (\<lambda>a. a\<lparr>q_settled := True\<rparr>) (acquisitions s),
      cameraError := True\<rparr>"

text \<open>\<open>stopRecording\<close>: \<open>stop()\<close> on the referenced recorder if its state is recording.\<close>

definition stopRecording :: "'loc component \<Rightarrow> 'loc component" where
  "stopRecording s =
    (case mediaRecorderRef s of
       None \<Rightarrow> s
     | Some r \<Rightarrow>
         if r < length (recorders s) \<and> r_state (recorders s ! r) = Recording
         then s\<lparr>recorders :=
                  modify_at r (\<lambda>m. m\<lparr>r_state := Inactive, r_stop_queued := True\<rparr>) (recorders s)\<rparr>
         else s)"

definition toggleMute :: "'loc component \<Rightarrow> 'loc component" where
  "toggleMute s =
    (case streamRef s of
       None \<Rightarrow> s
     | Some i \<Rightarrow>
         s\<lparr>streams := modify_at i (\<lambda>m. m\<lparr>s_audio := \<not> s_audio m\<rparr>) (streams s),
           isMuted := \<not> isMuted s\<rparr>)"

definition toggleCamera :: "'loc component \<Rightarrow> 'loc component" where
  "toggleCamera s =
    s\<lparr>facingMode := (if facingMode s = User then Environment else User)\<rparr>"

text \<open>\<open>handleSave\<close>; \<open>t1\<close> and \<open>t2\<close> are the two readings of the clock.\<close>

definition handleSave :: "'loc props \<Rightarrow> nat \<Rightarrow> nat \<Rightarrow> 'loc component \<Rightarrow> 'loc component" where
  "handleSave p t1 t2 s =
    (case videoUrl s of
       None \<Rightarrow> s
     | Some u \<Rightarrow>
         s\<lparr>calls := calls s @
              [OnSave \<lparr>ev_id = VID t1, ev_url = u, ev_timestamp = ISO t2,
                       ev_duration = 60 - timeLeft s,
                       ev_emergencyType = emergencyType p,
                       ev_location = location p\<rparr>]\<rparr>)"

text \<open>The Retry button: \<open>() => setCameraError(false)\<close>.\<close>

definition retry :: "'loc component \<Rightarrow> 'loc component" where
  "retry s = s\<lparr>cameraError := False\<rparr>"

text \<open>The Discard button calls \<open>onDiscard\<close> when it was passed.\<close>

definition discard :: "'loc props \<Rightarrow> 'loc component \<Rightarrow> 'loc component" where
  "discard p s = (if has_onDiscard p then s\<lparr>calls := calls s @ [OnDiscard]\<rparr> else s)"

text \<open>The callback of the interval: \<open>setTimeLeft((prev) => prev - 1)\<close>.\<close>

definition tick :: "'loc component \<Rightarrow> 'loc component" where
  "tick s = s\<lparr>timeLeft := timeLeft s - 1\<rparr>"

subsection \<open>Rendering and effects\<close>

text \<open>The three \<open>return\<close> statements of the component, in the order of the source.\<close>

definition view :: "'loc component \<Rightarrow> screen" where
  "view s =
    (if reviewMode s \<and> videoUrl s \<noteq> None then ReviewScreen
     else if cameraError s then ErrorScreen
     else RecordingScreen)"

text \<open>
  The camera effect, dependencies \<open>[facingMode]\<close>: the clean-up of the previous run
  (\<open>stopCamera\<close>), then \<open>startCamera\<close>.
\<close>

definition camera_effect :: "'loc component \<Rightarrow> 'loc component" where
  "camera_effect s = startCamera (stopCamera s)"

text \<open>
  The timer effect, dependencies \<open>[recording, timeLeft]\<close>: the clean-up of the previous
  run (\<open>clearInterval\<close>), then the body.
\<close>

definition timer_effect :: "'loc component \<Rightarrow> 'loc component" where
  "timer_effect s =
    (if recording s \<and> timeLeft s > 0 then s\<lparr>interval := True\<rparr>
     else if timeLeft s = 0 \<and> recording s
     then stopRecording (s\<lparr>interval := False, timerStops := timerStops s + 1\<rparr>)
     else s\<lparr>interval := False\<rparr>)"

text \<open>
  After a handler has turned \<open>old\<close> into \<open>new\<close>, React renders \<open>new\<close> and runs each effect
  whose dependencies differ from those of the previous render.
\<close>

definition commit :: "'loc component \<Rightarrow> 'loc component \<Rightarrow> 'loc component" where
  "commit old new =
    (let a = (if facingMode new = facingMode old then new else camera_effect new)
     in if recording new = recording old \<and> timeLeft new = timeLeft old then a
        else timer_effect a)"

text \<open>Mounting with props \<open>p\<close>: the first render, after which both effects run.\<close>

definition mount :: "'loc props \<Rightarrow> 'loc component" where
  "mount p = timer_effect (camera_effect initial)"

subsection \<open>Events\<close>

text \<open>
  What the event loop can deliver to the component: the settlement of a \<open>getUserMedia\<close>
  promise (fulfilled, with the recorder starting if one is built; fulfilled, with the
  recorder throwing if one is built; rejected), a tick of the interval, the \<open>dataavailable\<close> and \<open>stop\<close> events of a
  recorder, and the clicks on the buttons of the screen that is shown.
\<close>

datatype event =
    GumResolved nat bool
  | GumResolvedThrows nat recorder_failure
  | GumRejected nat
  | Tick
  | DataAvailable nat blob
  | RecorderStopped nat
  | ClickRetry
  | ClickStop
  | ClickMute
  | ClickFlip
  | ClickSave nat nat
  | ClickDiscard

text \<open>
  When the environment can deliver an event. A promise settles once. The interval fires
  while it is set. A recorder delivers data while it records or while its \<open>stop\<close> event
  is queued; its \<open>stop\<close> event is dispatched when \<open>stop()\<close> queued it, or when it still
  records and all tracks of its stream have ended. A button can be clicked on the
  screen that renders it.
\<close>

fun enabled :: "'loc component \<Rightarrow> event \<Rightarrow> bool" where
  "enabled s (GumResolved i w) =
     (i < length (acquisitions s) \<and> \<not> q_settled (acquisitions s ! i))"
| "enabled s (GumResolvedThrows i f) =
     (i < length (acquisitions s) \<and> \<not> q_settled (acquisitions s ! i))"
| "enabled s (GumRejected i) =
     (i < length (acquisitions s) \<and> \<not> q_settled (acquisitions s ! i))"
| "enabled s Tick = interval s"
| "enabled s (DataAvailable r d) =
     (r < length (recorders s) \<and>
      (r_state (recorders s ! r) = Recording \<or> r_stop_queued (recorders s ! r)))"
| "enabled s (RecorderStopped r) =
     (r < length (recorders s) \<and>
      (r_stop_queued (recorders s ! r) \<or>
       (r_state (recorders s ! r) = Recording \<and>
        r_stream (recorders s ! r) < length (streams s) \<and>
        s_ended (streams s ! r_stream (recorders s ! r)))))"
| "enabled s ClickRetry = (view s = ErrorScreen)"
| "enabled s ClickStop = (view s = RecordingScreen)"
| "enabled s ClickMute = (view s = RecordingScreen)"
| "enabled s ClickFlip = (view s = RecordingScreen)"
| "enabled s (ClickSave t1 t2) = (view s = ReviewScreen)"
| "enabled s ClickDiscard = (view s = ReviewScreen)"

text \<open>
  The handler of each event. Dispatching \<open>stop\<close> on a recorder leaves it inactive with
  nothing queued, then runs \<open>onstop\<close>.
\<close>

fun handle :: "'loc props \<Rightarrow> 'loc component \<Rightarrow> event \<Rightarrow> 'loc component" where
  "handle p s (GumResolved i w) = startCamera_resume i (Starts w) s"
| "handle p s (GumResolvedThrows i f) = startCamera_resume i (Throws f) s"
| "handle p s (GumRejected i) = startCamera_catch i s"
| "handle p s Tick = tick s"
| "handle p s (DataAvailable r d) = ondataavailable d s"
| "handle p s (RecorderStopped r) =
     onstop (s\<lparr>recorders :=
       modify_at r (\<lambda>m. m\<lparr>r_state := Inactive, r_stop_queued := False\<rparr>) (recorders s)\<rparr>)"
| "handle p s ClickRetry = retry s"
| "handle p s ClickStop = stopRecording s"
| "handle p s ClickMute = toggleMute s"
| "handle p s ClickFlip = toggleCamera s"
| "handle p s (ClickSave t1 t2) = handleSave p t1 t2 s"
| "handle p s ClickDiscard = discard p s"

text \<open>One task of the event loop; an event that cannot be delivered changes nothing.\<close>

definition step :: "'loc props \<Rightarrow> 'loc component \<Rightarrow> event \<Rightarrow> 'loc component" where
  "step p s e = (if enabled s e then commit s (handle p s e) else s)"

definition run :: "'loc props \<Rightarrow> 'loc component \<Rightarrow> event list \<Rightarrow> 'loc component" where
  "run p s es = foldl (step p) s es"

text \<open>An execution of the component: mounting, then a sequence of events.\<close>

definition exec :: "'loc props \<Rightarrow> event list \<Rightarrow> 'loc component" where
  "exec p es = run p (mount p) es"

text \<open>A sequence of events each of which can be delivered when its turn comes.\<close>

fun deliverable :: "'loc props \<Rightarrow> 'loc component \<Rightarrow> event list \<Rightarrow> bool" where
  "deliverable p s [] = True"
| "deliverable p s (e # es) = (enabled s e \<and> deliverable p (step p s e) es)"

subsection \<open>The screen selection in the words of the specification\<close>

text \<open>
  The specification describes the rendered screen as a function of the three flags
  \<open>cameraError\<close>, \<open>recording\<close> and \<open>reviewMode\<close>, first match wins: the Review screen
  when \<open>reviewMode\<close> holds (and a finalized clip exists), else the Error screen when
  \<open>cameraError\<close> holds, else the live Recording screen. \<open>select_screen\<close> is that
  function; the clip is not among its arguments. \<open>view\<close> above is the source's.
\<close>

definition select_screen :: "bool \<Rightarrow> bool \<Rightarrow> bool \<Rightarrow> screen" where
  "select_screen cameraError' recording' reviewMode' =
    (if reviewMode' then ReviewScreen
     else if cameraError' then ErrorScreen
     else RecordingScreen)"

subsection \<open>Observations and invariants\<close>

text \<open>The capture sessions that are active: the streams whose tracks have not been stopped.\<close>

definition active_streams :: "'loc component \<Rightarrow> media_stream list" where
  "active_streams s = filter (\<lambda>m. \<not> s_ended m) (streams s)"

text \<open>The countdown stays within its range, and the interval runs exactly while recording
  with time left.\<close>

definition timer_ok :: "'loc component \<Rightarrow> bool" where
  "timer_ok s =
    (0 \<le> timeLeft s \<and> timeLeft s \<le> 60 \<and> interval s = (recording s \<and> 0 < timeLeft s))"

definition chunks_ok :: "'loc component \<Rightarrow> bool" where
  "chunks_ok s = list_all (\<lambda>d. 0 < size_of d) (chunksRef s)"

definition clip_ok :: "'loc component \<Rightarrow> bool" where
  "clip_ok s = (videoUrl s \<noteq> None \<or> \<not> reviewMode s)"

text \<open>Until recording has started for the first time, the countdown is at 60 and every call
  of \<open>startCamera\<close> has closed over constants that pass the auto-start test.\<close>

definition fresh :: "'loc component \<Rightarrow> bool" where
  "fresh s =
    (reviewMode s \<or> recording s \<or> (timeLeft s = 60 \<and> list_all autostart (acquisitions s)))"

text \<open>No outstanding call of \<open>startCamera\<close> would still pass the auto-start test.\<close>

definition no_stale :: "'loc component \<Rightarrow> bool" where
  "no_stale s = list_all (\<lambda>q. q_settled q \<or> \<not> autostart q) (acquisitions s)"

text \<open>The timer is halted for good: the component is in review, nothing records, the
  interval is cleared and no outstanding call of \<open>startCamera\<close> can start a recorder.\<close>

definition halted :: "'loc component \<Rightarrow> bool" where
  "halted s =
    (reviewMode s \<and> videoUrl s \<noteq> None \<and> \<not> recording s \<and> \<not> interval s \<and> no_stale s)"

text \<open>Between \<open>stop()\<close> on recorder \<open>r\<close> and the dispatch of its \<open>stop\<close> event, while the
  component still records.\<close>

definition stopping :: "nat \<Rightarrow> 'loc component \<Rightarrow> bool" where
  "stopping r s =
    (timer_ok s \<and> no_stale s \<and> recording s \<and>
     r < length (recorders s) \<and> r_stop_queued (recorders s ! r))"

text \<open>The events a recorder and the interval deliver by themselves.\<close>

fun tick_or_data :: "event \<Rightarrow> bool" where
  "tick_or_data Tick = True"
| "tick_or_data (DataAvailable r d) = True"
| "tick_or_data e = False"

subsection \<open>Concrete inputs\<close>

definition fire_props :: "(int \<times> int) props" where
  "fire_props =
    \<lparr>emergencyId = ''E-17'', emergencyType = ''fire'', location = (52, 13),
     has_onDiscard = True\<rparr>"

definition fragment :: blob where
  "fragment = \<lparr>bytes = [7, 7, 7], mime = ''video/webm''\<rparr>"

definition empty_fragment :: blob where
  "empty_fragment = \<lparr>bytes = [], mime = ''video/webm''\<rparr>"

text \<open>Acquisition succeeds, one second passes, the user stops, the recorder delivers its
  data and its \<open>stop\<close> event: the component shows the review screen.\<close>

definition review_trace :: "event list" where
  "review_trace =
    [GumResolved 0 True, Tick, ClickStop, DataAvailable 0 fragment, RecorderStopped 0]"

text \<open>A recording that receives a fragment and then an empty data event.\<close>

definition data_trace :: "event list" where
  "data_trace = [GumResolved 0 True, DataAvailable 0 fragment, DataAvailable 0 empty_fragment]"

text \<open>A recording that has received one fragment and has run for three seconds.\<close>

definition recording_trace :: "event list" where
  "recording_trace = [GumResolved 0 True, DataAvailable 0 fragment, Tick, Tick, Tick]"

text \<open>The same, followed by a facing-mode switch and the acquisition of the new stream.\<close>

definition switch_trace :: "event list" where
  "switch_trace = recording_trace @ [ClickFlip, GumResolved 1 True]"

text \<open>A recording that has run for one second.\<close>

definition second_trace :: "event list" where
  "second_trace = [GumResolved 0 True, Tick]"

text \<open>The same, then a manual stop; the interval fires once more before the recorder
  delivers its data and its \<open>stop\<close> event.\<close>

definition late_tick_trace :: "event list" where
  "late_tick_trace =
    second_trace @ [ClickStop, Tick, DataAvailable 0 fragment, RecorderStopped 0]"

text \<open>The user flips the camera while the first acquisition is outstanding; the first
  acquisition succeeds, recording starts and a fragment arrives. The second acquisition
  is still outstanding.\<close>

definition stale_recording_trace :: "event list" where
  "stale_recording_trace = [ClickFlip, GumResolved 0 True, DataAvailable 0 fragment]"

text \<open>The same start; the user then stops after one second and the component shows the
  review screen. The second acquisition is still outstanding.\<close>

definition stale_review_trace :: "event list" where
  "stale_review_trace =
    [ClickFlip, GumResolved 0 True, Tick, ClickStop, DataAvailable 0 fragment,
     RecorderStopped 0]"

text \<open>The same start; the recording runs for the full 60 seconds.\<close>

definition expiry_trace :: "event list" where
  "expiry_trace = [ClickFlip, GumResolved 0 True] @ replicate 60 Tick"

text \<open>After the expiry the recorder delivers its \<open>stop\<close> event, and then the second
  acquisition succeeds.\<close>

definition expiry_restart_trace :: "event list" where
  "expiry_restart_trace = expiry_trace @ [RecorderStopped 0, GumResolved 1 True]"

section \<open>How each function changes the state\<close>

text \<open>
  One lemma per function of the component, giving every field of the state after the
  call. The proofs below use these instead of unfolding the functions.
\<close>

lemma stopCamera_fields:
  "recording (stopCamera s) = recording s"
  "timeLeft (stopCamera s) = timeLeft s"
  "isMuted (stopCamera s) = isMuted s"
  "facingMode (stopCamera s) = facingMode s"
  "cameraError (stopCamera s) = cameraError s"
  "reviewMode (stopCamera s) = reviewMode s"
  "videoUrl (stopCamera s) = videoUrl s"
  "mediaRecorderRef (stopCamera s) = mediaRecorderRef s"
  "chunksRef (stopCamera s) = chunksRef s"
  "streamRef (stopCamera s) = None"
  "streams (stopCamera s) = (case streamRef s of None \<Rightarrow> streams s | Some i \<Rightarrow> modify_at i (\<lambda>m. m\<lparr>s_ended := True\<rparr>) (streams s))"
  "recorders (stopCamera s) = recorders s"
  "acquisitions (stopCamera s) = acquisitions s"
  "interval (stopCamera s) = interval s"
  "timerStops (stopCamera s) = timerStops s"
  "calls (stopCamera s) = calls s"
  by (simp_all add: stopCamera_def split: option.splits)

lemma ondataavailable_fields:
  "recording (ondataavailable d s) = recording s"
  "timeLeft (ondataavailable d s) = timeLeft s"
  "isMuted (ondataavailable d s) = isMuted s"
  "facingMode (ondataavailable d s) = facingMode s"
  "cameraError (ondataavailable d s) = cameraError s"
  "reviewMode (ondataavailable d s) = reviewMode s"
  "videoUrl (ondataavailable d s) = videoUrl s"
  "mediaRecorderRef (ondataavailable d s) = mediaRecorderRef s"
  "chunksRef (ondataavailable d s) = (if size_of d > 0 then chunksRef s @ [d] else chunksRef s)"
  "streamRef (ondataavailable d s) = streamRef s"
  "streams (ondataavailable d s) = streams s"
  "recorders (ondataavailable d s) = recorders s"
  "acquisitions (ondataavailable d s) = acquisitions s"
  "interval (ondataavailable d s) = interval s"
  "timerStops (ondataavailable d s) = timerStops s"
  "calls (ondataavailable d s) = calls s"
  by (simp_all add: ondataavailable_def)

lemma onstop_fields:
  "recording (onstop s) = False"
  "timeLeft (onstop s) = timeLeft s"
  "isMuted (onstop s) = isMuted s"
  "facingMode (onstop s) = facingMode s"
  "cameraError (onstop s) = cameraError s"
  "reviewMode (onstop s) = True"
  "videoUrl (onstop s) = Some (ObjectURL (new_Blob (chunksRef s) ''video/webm''))"
  "mediaRecorderRef (onstop s) = mediaRecorderRef s"
  "chunksRef (onstop s) = chunksRef s"
  "streamRef (onstop s) = None"
  "streams (onstop s) = (case streamRef s of None \<Rightarrow> streams s | Some i \<Rightarrow> modify_at i (\<lambda>m. m\<lparr>s_ended := True\<rparr>) (streams s))"
  "recorders (onstop s) = recorders s"
  "acquisitions (onstop s) = acquisitions s"
  "interval (onstop s) = interval s"
  "timerStops (onstop s) = timerStops s"
  "calls (onstop s) = calls s"
  by (simp_all add: onstop_def stopCamera_def split: option.splits)

lemma startCamera_fields:
  "recording (startCamera s) = recording s"
  "timeLeft (startCamera s) = timeLeft s"
  "isMuted (startCamera s) = isMuted s"
  "facingMode (startCamera s) = facingMode s"
  "cameraError (startCamera s) = False"
  "reviewMode (startCamera s) = reviewMode s"
  "videoUrl (startCamera s) = videoUrl s"
  "mediaRecorderRef (startCamera s) = mediaRecorderRef s"
  "chunksRef (startCamera s) = chunksRef s"
  "streamRef (startCamera s) = None"
  "streams (startCamera s) = (case streamRef s of None \<Rightarrow> streams s | Some i \<Rightarrow> modify_at i (\<lambda>m. m\<lparr>s_ended := True\<rparr>) (streams s))"
  "recorders (startCamera s) = recorders s"
  "acquisitions (startCamera s) = acquisitions s @ [\<lparr>q_facingMode = facingMode s, q_reviewMode = reviewMode s, q_recording = recording s, q_timeLeft = timeLeft s, q_settled = False\<rparr>]"
  "interval (startCamera s) = interval s"
  "timerStops (startCamera s) = timerStops s"
  "calls (startCamera s) = calls s"
  by (simp_all add: startCamera_def stopCamera_def split: option.splits)

lemma startCamera_catch_fields:
  "recording (startCamera_catch i s) = recording s"
  "timeLeft (startCamera_catch i s) = timeLeft s"
  "isMuted (startCamera_catch i s) = isMuted s"
  "facingMode (startCamera_catch i s) = facingMode s"
  "cameraError (startCamera_catch i s) = True"
  "reviewMode (startCamera_catch i s) = reviewMode s"
  "videoUrl (startCamera_catch i s) = videoUrl s"
  "mediaRecorderRef (startCamera_catch i s) = mediaRecorderRef s"
  "chunksRef (startCamera_catch i s) = chunksRef s"
  "streamRef (startCamera_catch i s) = streamRef s"
  "streams (startCamera_catch i s) = streams s"
  "recorders (startCamera_catch i s) = recorders s"
  "acquisitions (startCamera_catch i s) = modify_at i (\<lambda>a. a\<lparr>q_settled := True\<rparr>) (acquisitions s)"
  "interval (startCamera_catch i s) = interval s"
  "timerStops (startCamera_catch i s) = timerStops s"
  "calls (startCamera_catch i s) = calls s"
  by (simp_all add: startCamera_catch_def)

lemma startCamera_resume_fields:
  "recording (startCamera_resume i (Starts webm) s) = (autostart (acquisitions s ! i) \<or> recording s)"
  "timeLeft (startCamera_resume i (Starts webm) s) = timeLeft s"
  "isMuted (startCamera_resume i (Starts webm) s) = isMuted s"
  "facingMode (startCamera_resume i (Starts webm) s) = facingMode s"
  "cameraError (startCamera_resume i (Starts webm) s) = cameraError s"
  "reviewMode (startCamera_resume i (Starts webm) s) = reviewMode s"
  "videoUrl (startCamera_resume i (Starts webm) s) = videoUrl s"
  "mediaRecorderRef (startCamera_resume i (Starts webm) s) = (if autostart (acquisitions s ! i) then Some (length (recorders s)) else mediaRecorderRef s)"
  "chunksRef (startCamera_resume i (Starts webm) s) = (if autostart (acquisitions s ! i) then [] else chunksRef s)"
  "streamRef (startCamera_resume i (Starts webm) s) = Some (length (streams s))"
  "streams (startCamera_resume i (Starts webm) s) = streams s @ [\<lparr>s_facing = q_facingMode (acquisitions s ! i), s_ended = False, s_audio = True\<rparr>]"
  "recorders (startCamera_resume i (Starts webm) s) = (if autostart (acquisitions s ! i) then recorders s @ [\<lparr>r_stream = length (streams s), r_mime = (if webm then Some ''video/webm'' else None), r_state = Recording, r_stop_queued = False\<rparr>] else recorders s)"
  "acquisitions (startCamera_resume i (Starts webm) s) = modify_at i (\<lambda>a. a\<lparr>q_settled := True\<rparr>) (acquisitions s)"
  "interval (startCamera_resume i (Starts webm) s) = interval s"
  "timerStops (startCamera_resume i (Starts webm) s) = timerStops s"
  "calls (startCamera_resume i (Starts webm) s) = calls s"
  by (simp_all add: startCamera_resume_def startRecordingProcess_def Let_def)

lemma startCamera_throws_fields:
  "recording (startCamera_resume i (Throws f) s) = recording s"
  "timeLeft (startCamera_resume i (Throws f) s) = timeLeft s"
  "isMuted (startCamera_resume i (Throws f) s) = isMuted s"
  "facingMode (startCamera_resume i (Throws f) s) = facingMode s"
  "cameraError (startCamera_resume i (Throws f) s) = (autostart (acquisitions s ! i) \<or> cameraError s)"
  "reviewMode (startCamera_resume i (Throws f) s) = reviewMode s"
  "videoUrl (startCamera_resume i (Throws f) s) = videoUrl s"
  "mediaRecorderRef (startCamera_resume i (Throws f) s) = (if autostart (acquisitions s ! i)
      then (case f of
              ConstructorThrows \<Rightarrow> mediaRecorderRef s
            | StartThrows webm \<Rightarrow> Some (length (recorders s)))
      else mediaRecorderRef s)"
  "chunksRef (startCamera_resume i (Throws f) s) = (if autostart (acquisitions s ! i)
      then (case f of ConstructorThrows \<Rightarrow> chunksRef s | StartThrows webm \<Rightarrow> [])
      else chunksRef s)"
  "streamRef (startCamera_resume i (Throws f) s) = Some (length (streams s))"
  "streams (startCamera_resume i (Throws f) s) = streams s @ [\<lparr>s_facing = q_facingMode (acquisitions s ! i), s_ended = False, s_audio = True\<rparr>]"
  "recorders (startCamera_resume i (Throws f) s) = (if autostart (acquisitions s ! i)
      then (case f of
              ConstructorThrows \<Rightarrow> recorders s
            | StartThrows webm \<Rightarrow> recorders s @
                [\<lparr>r_stream = length (streams s),
                  r_mime = (if webm then Some ''video/webm'' else None),
                  r_state = Inactive, r_stop_queued = False\<rparr>])
      else recorders s)"
  "acquisitions (startCamera_resume i (Throws f) s) = modify_at i (\<lambda>a. a\<lparr>q_settled := True\<rparr>) (acquisitions s)"
  "interval (startCamera_resume i (Throws f) s) = interval s"
  "timerStops (startCamera_resume i (Throws f) s) = timerStops s"
  "calls (startCamera_resume i (Throws f) s) = calls s"
  by (cases f; simp add: startCamera_resume_def startRecordingProcess_def Let_def)+

lemma stopRecording_fields:
  "recording (stopRecording s) = recording s"
  "timeLeft (stopRecording s) = timeLeft s"
  "isMuted (stopRecording s) = isMuted s"
  "facingMode (stopRecording s) = facingMode s"
  "cameraError (stopRecording s) = cameraError s"
  "reviewMode (stopRecording s) = reviewMode s"
  "videoUrl (stopRecording s) = videoUrl s"
  "mediaRecorderRef (stopRecording s) = mediaRecorderRef s"
  "chunksRef (stopRecording s) = chunksRef s"
  "streamRef (stopRecording s) = streamRef s"
  "streams (stopRecording s) = streams s"
  "recorders (stopRecording s) = (case mediaRecorderRef s of None \<Rightarrow> recorders s
      | Some r \<Rightarrow> if r < length (recorders s) \<and> r_state (recorders s ! r) = Recording
          then modify_at r (\<lambda>m. m\<lparr>r_state := Inactive, r_stop_queued := True\<rparr>) (recorders s)
          else recorders s)"
  "acquisitions (stopRecording s) = acquisitions s"
  "interval (stopRecording s) = interval s"
  "timerStops (stopRecording s) = timerStops s"
  "calls (stopRecording s) = calls s"
  by (simp_all add: stopRecording_def split: option.splits)

lemma toggleMute_fields:
  "recording (toggleMute s) = recording s"
  "timeLeft (toggleMute s) = timeLeft s"
  "isMuted (toggleMute s) = (if streamRef s = None then isMuted s else \<not> isMuted s)"
  "facingMode (toggleMute s) = facingMode s"
  "cameraError (toggleMute s) = cameraError s"
  "reviewMode (toggleMute s) = reviewMode s"
  "videoUrl (toggleMute s) = videoUrl s"
  "mediaRecorderRef (toggleMute s) = mediaRecorderRef s"
  "chunksRef (toggleMute s) = chunksRef s"
  "streamRef (toggleMute s) = streamRef s"
  "streams (toggleMute s) = (case streamRef s of None \<Rightarrow> streams s | Some i \<Rightarrow> modify_at i (\<lambda>m. m\<lparr>s_audio := \<not> s_audio m\<rparr>) (streams s))"
  "recorders (toggleMute s) = recorders s"
  "acquisitions (toggleMute s) = acquisitions s"
  "interval (toggleMute s) = interval s"
  "timerStops (toggleMute s) = timerStops s"
  "calls (toggleMute s) = calls s"
  by (simp_all add: toggleMute_def split: option.splits)

lemma toggleCamera_fields:
  "recording (toggleCamera s) = recording s"
  "timeLeft (toggleCamera s) = timeLeft s"
  "isMuted (toggleCamera s) = isMuted s"
  "facingMode (toggleCamera s) = (if facingMode s = User then Environment else User)"
  "cameraError (toggleCamera s) = cameraError s"
  "reviewMode (toggleCamera s) = reviewMode s"
  "videoUrl (toggleCamera s) = videoUrl s"
  "mediaRecorderRef (toggleCamera s) = mediaRecorderRef s"
  "chunksRef (toggleCamera s) = chunksRef s"
  "streamRef (toggleCamera s) = streamRef s"
  "streams (toggleCamera s) = streams s"
  "recorders (toggleCamera s) = recorders s"
  "acquisitions (toggleCamera s) = acquisitions s"
  "interval (toggleCamera s) = interval s"
  "timerStops (toggleCamera s) = timerStops s"
  "calls (toggleCamera s) = calls s"
  by (simp_all add: toggleCamera_def)

lemma handleSave_fields:
  "recording (handleSave p t1 t2 s) = recording s"
  "timeLeft (handleSave p t1 t2 s) = timeLeft s"
  "isMuted (handleSave p t1 t2 s) = isMuted s"
  "facingMode (handleSave p t1 t2 s) = facingMode s"
  "cameraError (handleSave p t1 t2 s) = cameraError s"
  "reviewMode (handleSave p t1 t2 s) = reviewMode s"
  "videoUrl (handleSave p t1 t2 s) = videoUrl s"
  "mediaRecorderRef (handleSave p t1 t2 s) = mediaRecorderRef s"
  "chunksRef (handleSave p t1 t2 s) = chunksRef s"
  "streamRef (handleSave p t1 t2 s) = streamRef s"
  "streams (handleSave p t1 t2 s) = streams s"
  "recorders (handleSave p t1 t2 s) = recorders s"
  "acquisitions (handleSave p t1 t2 s) = acquisitions s"
  "interval (handleSave p t1 t2 s) = interval s"
  "timerStops (handleSave p t1 t2 s) = timerStops s"
  "calls (handleSave p t1 t2 s) = (case videoUrl s of None \<Rightarrow> calls s
      | Some u \<Rightarrow> calls s @
          [OnSave \<lparr>ev_id = VID t1, ev_url = u, ev_timestamp = ISO t2,
             ev_duration = 60 - timeLeft s, ev_emergencyType = emergencyType p,
             ev_location = location p\<rparr>])"
  by (simp_all add: handleSave_def split: option.splits)

lemma retry_fields:
  "recording (retry s) = recording s"
  "timeLeft (retry s) = timeLeft s"
  "isMuted (retry s) = isMuted s"
  "facingMode (retry s) = facingMode s"
  "cameraError (retry s) = False"
  "reviewMode (retry s) = reviewMode s"
  "videoUrl (retry s) = videoUrl s"
  "mediaRecorderRef (retry s) = mediaRecorderRef s"
  "chunksRef (retry s) = chunksRef s"
  "streamRef (retry s) = streamRef s"
  "streams (retry s) = streams s"
  "recorders (retry s) = recorders s"
  "acquisitions (retry s) = acquisitions s"
  "interval (retry s) = interval s"
  "timerStops (retry s) = timerStops s"
  "calls (retry s) = calls s"
  by (simp_all add: retry_def)

lemma discard_fields:
  "recording (discard p s) = recording s"
  "timeLeft (discard p s) = timeLeft s"
  "isMuted (discard p s) = isMuted s"
  "facingMode (discard p s) = facingMode s"
  "cameraError (discard p s) = cameraError s"
  "reviewMode (discard p s) = reviewMode s"
  "videoUrl (discard p s) = videoUrl s"
  "mediaRecorderRef (discard p s) = mediaRecorderRef s"
  "chunksRef (discard p s) = chunksRef s"
  "streamRef (discard p s) = streamRef s"
  "streams (discard p s) = streams s"
  "recorders (discard p s) = recorders s"
  "acquisitions (discard p s) = acquisitions s"
  "interval (discard p s) = interval s"
  "timerStops (discard p s) = timerStops s"
  "calls (discard p s) = (if has_onDiscard p then calls s @ [OnDiscard] else calls s)"
  by (simp_all add: discard_def)

lemma tick_fields:
  "recording (tick s) = recording s"
  "timeLeft (tick s) = timeLeft s - 1"
  "isMuted (tick s) = isMuted s"
  "facingMode (tick s) = facingMode s"
  "cameraError (tick s) = cameraError s"
  "reviewMode (tick s) = reviewMode s"
  "videoUrl (tick s) = videoUrl s"
  "mediaRecorderRef (tick s) = mediaRecorderRef s"
  "chunksRef (tick s) = chunksRef s"
  "streamRef (tick s) = streamRef s"
  "streams (tick s) = streams s"
  "recorders (tick s) = recorders s"
  "acquisitions (tick s) = acquisitions s"
  "interval (tick s) = interval s"
  "timerStops (tick s) = timerStops s"
  "calls (tick s) = calls s"
  by (simp_all add: tick_def)

lemma camera_effect_fields:
  "recording (camera_effect s) = recording s"
  "timeLeft (camera_effect s) = timeLeft s"
  "isMuted (camera_effect s) = isMuted s"
  "facingMode (camera_effect s) = facingMode s"
  "cameraError (camera_effect s) = False"
  "reviewMode (camera_effect s) = reviewMode s"
  "videoUrl (camera_effect s) = videoUrl s"
  "mediaRecorderRef (camera_effect s) = mediaRecorderRef s"
  "chunksRef (camera_effect s) = chunksRef s"
  "streamRef (camera_effect s) = None"
  "streams (camera_effect s) = (case streamRef s of None \<Rightarrow> streams s | Some i \<Rightarrow> modify_at i (\<lambda>m. m\<lparr>s_ended := True\<rparr>) (streams s))"
  "recorders (camera_effect s) = recorders s"
  "acquisitions (camera_effect s) = acquisitions s @ [\<lparr>q_facingMode = facingMode s, q_reviewMode = reviewMode s, q_recording = recording s, q_timeLeft = timeLeft s, q_settled = False\<rparr>]"
  "interval (camera_effect s) = interval s"
  "timerStops (camera_effect s) = timerStops s"
  "calls (camera_effect s) = calls s"
  by (simp_all add: camera_effect_def startCamera_fields stopCamera_fields split: option.splits)

lemma timer_effect_fields:
  "recording (timer_effect s) = recording s"
  "timeLeft (timer_effect s) = timeLeft s"
  "isMuted (timer_effect s) = isMuted s"
  "facingMode (timer_effect s) = facingMode s"
  "cameraError (timer_effect s) = cameraError s"
  "reviewMode (timer_effect s) = reviewMode s"
  "videoUrl (timer_effect s) = videoUrl s"
  "mediaRecorderRef (timer_effect s) = mediaRecorderRef s"
  "chunksRef (timer_effect s) = chunksRef s"
  "streamRef (timer_effect s) = streamRef s"
  "streams (timer_effect s) = streams s"
  "recorders (timer_effect s) = (if recording s \<and> timeLeft s = 0 then recorders (stopRecording s) else recorders s)"
  "acquisitions (timer_effect s) = acquisitions s"
  "interval (timer_effect s) = (recording s \<and> 0 < timeLeft s)"
  "timerStops (timer_effect s) = (if recording s \<and> timeLeft s = 0 then timerStops s + 1 else timerStops s)"
  "calls (timer_effect s) = calls s"
  by (auto simp: timer_effect_def stopRecording_def split: option.splits)

lemmas fields =
  stopCamera_fields ondataavailable_fields onstop_fields
  startCamera_fields startCamera_catch_fields startCamera_resume_fields
  startCamera_throws_fields
  stopRecording_fields toggleMute_fields toggleCamera_fields handleSave_fields
  retry_fields discard_fields tick_fields camera_effect_fields timer_effect_fields

text \<open>One step, event by event: which effects run after the handler.\<close>

lemma step_GumResolved:
  "step p s (GumResolved i w) =
    (if enabled s (GumResolved i w)
     then if autostart (acquisitions s ! i) \<and> \<not> recording s
          then timer_effect (startCamera_resume i (Starts w) s)
          else startCamera_resume i (Starts w) s
     else s)"
  by (auto simp: step_def commit_def fields)

lemma step_GumResolvedThrows:
  "step p s (GumResolvedThrows i f) =
    (if enabled s (GumResolvedThrows i f) then startCamera_resume i (Throws f) s else s)"
  by (simp add: step_def commit_def fields)

lemma step_GumRejected:
  "step p s (GumRejected i) = (if enabled s (GumRejected i) then startCamera_catch i s else s)"
  by (simp add: step_def commit_def fields)

lemma step_Tick:
  "step p s Tick = (if interval s then timer_effect (tick s) else s)"
  by (simp add: step_def commit_def fields)

lemma step_DataAvailable:
  "step p s (DataAvailable r d) = (if enabled s (DataAvailable r d) then ondataavailable d s else s)"
  by (simp add: step_def commit_def fields)

lemma step_RecorderStopped:
  "step p s (RecorderStopped r) =
    (if enabled s (RecorderStopped r)
     then (if recording s then timer_effect else (\<lambda>x. x))
            (onstop (s\<lparr>recorders :=
               modify_at r (\<lambda>m. m\<lparr>r_state := Inactive, r_stop_queued := False\<rparr>) (recorders s)\<rparr>))
     else s)"
  by (simp add: step_def commit_def fields Let_def del: enabled.simps)

lemma step_ClickRetry:
  "step p s ClickRetry = (if view s = ErrorScreen then retry s else s)"
  by (simp add: step_def commit_def fields)

lemma step_ClickStop:
  "step p s ClickStop = (if view s = RecordingScreen then stopRecording s else s)"
  by (simp add: step_def commit_def fields)

lemma step_ClickMute:
  "step p s ClickMute = (if view s = RecordingScreen then toggleMute s else s)"
  by (simp add: step_def commit_def fields)

lemma step_ClickFlip:
  "step p s ClickFlip = (if view s = RecordingScreen then camera_effect (toggleCamera s) else s)"
  by (simp add: step_def commit_def fields)

lemma step_ClickSave:
  "step p s (ClickSave t1 t2) = (if view s = ReviewScreen then handleSave p t1 t2 s else s)"
  by (simp add: step_def commit_def fields)

lemma step_ClickDiscard:
  "step p s ClickDiscard = (if view s = ReviewScreen then discard p s else s)"
  by (simp add: step_def commit_def fields)

lemmas step_event =
  step_GumResolved step_GumResolvedThrows step_GumRejected step_Tick step_DataAvailable step_RecorderStopped
  step_ClickRetry step_ClickStop step_ClickMute step_ClickFlip step_ClickSave step_ClickDiscard

lemma run_Nil: "run p s [] = s"
  by (simp add: run_def)

lemma run_Cons: "run p s (e # es) = run p (step p s e) es"
  by (simp add: run_def)

lemmas unfold_all =
  exec_def run_def mount_def step_def commit_def camera_effect_def timer_effect_def
  startCamera_resume_def startCamera_catch_def tick_def ondataavailable_def onstop_def
  retry_def stopRecording_def toggleMute_def toggleCamera_def handleSave_def discard_def
  startRecordingProcess_def stopCamera_def startCamera_def initial_def modify_at_def view_def
  autostart_def size_of_def new_Blob_def

section \<open>Invariants of every execution\<close>

lemma run_induct:
  assumes "P s" and "\<And>s e. P s \<Longrightarrow> P (step p s e)"
  shows "P (run p s es)"
  using assms(1)
  by (induction es arbitrary: s) (simp_all add: run_Nil run_Cons assms(2))

lemma timer_ok_mount: "timer_ok (mount p)"
  by (simp add: timer_ok_def mount_def fields initial_def)

lemma timer_ok_step: "timer_ok s \<Longrightarrow> timer_ok (step p s e)"
  by (cases e) (auto simp: timer_ok_def step_event fields simp del: enabled.simps)

lemma timer_ok_run: "timer_ok s \<Longrightarrow> timer_ok (run p s es)"
  by (rule run_induct) (simp_all add: timer_ok_step)

lemma timer_ok_exec: "timer_ok (exec p es)"
  by (simp add: exec_def timer_ok_run timer_ok_mount)

lemma chunks_ok_mount: "chunks_ok (mount p)"
  by (simp add: chunks_ok_def mount_def fields initial_def)

lemma chunks_ok_step: "chunks_ok s \<Longrightarrow> chunks_ok (step p s e)"
  by (cases e)
    (auto simp: chunks_ok_def step_event fields simp del: enabled.simps
      split: recorder_failure.splits)

lemma chunks_ok_exec: "chunks_ok (exec p es)"
  unfolding exec_def by (rule run_induct) (simp_all add: chunks_ok_step chunks_ok_mount)

lemma clip_ok_mount: "clip_ok (mount p)"
  by (simp add: clip_ok_def mount_def fields initial_def)

lemma clip_ok_step: "clip_ok s \<Longrightarrow> clip_ok (step p s e)"
  by (cases e) (auto simp: clip_ok_def step_event fields simp del: enabled.simps)

lemma clip_ok_exec: "clip_ok (exec p es)"
  unfolding exec_def by (rule run_induct) (simp_all add: clip_ok_step clip_ok_mount)

lemma list_all_modify_settled:
  "list_all autostart qs \<Longrightarrow> list_all autostart (modify_at i (\<lambda>a. a\<lparr>q_settled := True\<rparr>) qs)"
  by (auto simp: modify_at_def list_all_length nth_list_update autostart_def)

lemma fresh_mount: "fresh (mount p)"
  by (simp add: fresh_def mount_def fields initial_def autostart_def)

lemma fresh_step: "timer_ok s \<Longrightarrow> fresh s \<Longrightarrow> fresh (step p s e)"
  by (cases e)
    (auto simp: fresh_def timer_ok_def step_event fields list_all_modify_settled autostart_def
      simp del: enabled.simps)

lemma fresh_run: "timer_ok s \<Longrightarrow> fresh s \<Longrightarrow> fresh (run p s es)"
proof (induction es arbitrary: s)
  case Nil
  then show ?case by (simp add: run_Nil)
next
  case (Cons e es)
  then show ?case by (simp add: run_Cons timer_ok_step fresh_step)
qed

lemma fresh_exec: "fresh (exec p es)"
  by (simp add: exec_def fresh_run timer_ok_mount fresh_mount)

section \<open>The countdown and the timer effect\<close>

text \<open>
  In every execution the countdown is never negative, and no step raises it. The step
  at which it reaches zero is a tick of the interval taken while recording, and at that
  step the timer effect calls \<open>stopRecording\<close> once. In general the timer effect calls
  \<open>stopRecording\<close> once at each step that enters the state "recording with the countdown
  at zero", and at no other step.
\<close>

lemma timer_effect_calls:
  "0 \<le> timeLeft (exec p es) \<and>
   (\<forall>e. timeLeft (step p (exec p es) e) \<le> timeLeft (exec p es)) \<and>
   (\<forall>e. timeLeft (exec p es) \<noteq> 0 \<and> timeLeft (step p (exec p es) e) = 0 \<longrightarrow>
      e = Tick \<and> recording (exec p es) \<and> recording (step p (exec p es) e) \<and>
      timerStops (step p (exec p es) e) = timerStops (exec p es) + 1 \<and>
      \<not> interval (step p (exec p es) e) \<and>
      (\<forall>r. mediaRecorderRef (step p (exec p es) e) = Some r \<and>
            r < length (recorders (step p (exec p es) e)) \<longrightarrow>
            r_state (recorders (step p (exec p es) e) ! r) = Inactive)) \<and>
   (\<forall>e. timerStops (step p (exec p es) e) =
      (if recording (step p (exec p es) e) \<and> timeLeft (step p (exec p es) e) = 0 \<and>
          \<not> (recording (exec p es) \<and> timeLeft (exec p es) = 0)
       then timerStops (exec p es) + 1
       else timerStops (exec p es)))"
proof -
  define s where "s = exec p es"
  have ok: "timer_ok s"
    by (simp add: s_def timer_ok_exec)
  have nonneg: "0 \<le> timeLeft s"
    using ok by (simp add: timer_ok_def)
  have mono: "timeLeft (step p s e) \<le> timeLeft s" for e
    by (cases e) (auto simp: step_event fields simp del: enabled.simps)
  have reach: "e = Tick \<and> recording s \<and> recording (step p s e) \<and>
      timerStops (step p s e) = timerStops s + 1 \<and> \<not> interval (step p s e) \<and>
      (\<forall>r. mediaRecorderRef (step p s e) = Some r \<and> r < length (recorders (step p s e)) \<longrightarrow>
            r_state (recorders (step p s e) ! r) = Inactive)"
    if "timeLeft s \<noteq> 0" "timeLeft (step p s e) = 0" for e
  proof -
    have e: "e = Tick"
      using that
      by (cases e) (auto simp: step_event fields simp del: enabled.simps split: if_splits)
    have i: "interval s"
      using that e by (auto simp: step_Tick split: if_splits)
    then have r: "recording s"
      using ok by (simp add: timer_ok_def)
    have t: "timeLeft s = 1"
      using that e i by (simp add: step_Tick fields)
    define s' where "s' = step p s e"
    have s': "s' = timer_effect (tick s)"
      using e i by (simp add: s'_def step_Tick)
    have c1: "recording s'"
      using r by (simp add: s' fields)
    have c2: "timerStops s' = timerStops s + 1"
      using r t by (simp add: s' fields)
    have c3: "\<not> interval s'"
      using t by (simp add: s' fields)
    have c4: "r_state (recorders s' ! k) = Inactive"
      if "mediaRecorderRef s' = Some k" "k < length (recorders s')" for k
      using that r t
      by (cases "r_state (recorders s ! k)")
        (auto simp: s' fields modify_at_def split: if_splits)
    from e r c1 c2 c3 c4 show ?thesis
      unfolding s'_def by blast
  qed
  have count: "timerStops (step p s e) =
      (if recording (step p s e) \<and> timeLeft (step p s e) = 0 \<and>
          \<not> (recording s \<and> timeLeft s = 0)
       then timerStops s + 1 else timerStops s)" for e
    using ok
    by (cases e) (auto simp: timer_ok_def step_event fields simp del: enabled.simps)
  from nonneg mono reach count show ?thesis
    unfolding s_def by blast
qed

section \<open>The auto-start\<close>

text \<open>
  Whenever a \<open>getUserMedia\<close> promise is fulfilled in any execution while the component
  is neither in review mode nor recording, and the recorder starts, recording begins on
  the new stream. When the call was made from a render that was in review mode or
  recording, the fulfilment starts no recorder. When the recorder throws instead, the
  stream stays referenced and active, \<open>cameraError\<close> is set and nothing records.
\<close>

lemma fulfilled_acquisition_starts_recording:
  assumes "enabled (exec p es) (GumResolved i w)"
  shows
   "(\<not> reviewMode (exec p es) \<and> \<not> recording (exec p es) \<longrightarrow>
       recording (step p (exec p es) (GumResolved i w)) \<and>
       interval (step p (exec p es) (GumResolved i w)) \<and>
       timeLeft (step p (exec p es) (GumResolved i w)) = 60 \<and>
       chunksRef (step p (exec p es) (GumResolved i w)) = [] \<and>
       streamRef (step p (exec p es) (GumResolved i w)) = Some (length (streams (exec p es))) \<and>
       mediaRecorderRef (step p (exec p es) (GumResolved i w)) =
         Some (length (recorders (exec p es))) \<and>
       recorders (step p (exec p es) (GumResolved i w)) =
         recorders (exec p es) @
           [\<lparr>r_stream = length (streams (exec p es)),
             r_mime = (if w then Some ''video/webm'' else None),
             r_state = Recording, r_stop_queued = False\<rparr>]) \<and>
    (q_reviewMode (acquisitions (exec p es) ! i) \<or> q_recording (acquisitions (exec p es) ! i) \<longrightarrow>
       recorders (step p (exec p es) (GumResolved i w)) = recorders (exec p es) \<and>
       mediaRecorderRef (step p (exec p es) (GumResolved i w)) = mediaRecorderRef (exec p es) \<and>
       chunksRef (step p (exec p es) (GumResolved i w)) = chunksRef (exec p es) \<and>
       recording (step p (exec p es) (GumResolved i w)) = recording (exec p es))"
proof -
  define s where "s = exec p es"
  have en: "enabled s (GumResolved i w)"
    using assms by (simp add: s_def)
  then have i: "i < length (acquisitions s)"
    by simp
  have idle: "timeLeft s = 60 \<and> autostart (acquisitions s ! i)"
    if "\<not> reviewMode s" "\<not> recording s"
    using that i fresh_exec [of p es]
    by (auto simp: fresh_def s_def list_all_length)
  have start: "step p s (GumResolved i w) = timer_effect (startCamera_resume i (Starts w) s)"
    if "\<not> reviewMode s" "\<not> recording s"
    using that en idle by (simp add: step_GumResolved del: enabled.simps)
  have skip: "step p s (GumResolved i w) = startCamera_resume i (Starts w) s"
    if "\<not> autostart (acquisitions s ! i)"
    using that en by (simp add: step_GumResolved del: enabled.simps)
  have a: "\<not> reviewMode s \<and> \<not> recording s \<longrightarrow>
       recording (step p s (GumResolved i w)) \<and>
       interval (step p s (GumResolved i w)) \<and>
       timeLeft (step p s (GumResolved i w)) = 60 \<and>
       chunksRef (step p s (GumResolved i w)) = [] \<and>
       streamRef (step p s (GumResolved i w)) = Some (length (streams s)) \<and>
       mediaRecorderRef (step p s (GumResolved i w)) = Some (length (recorders s)) \<and>
       recorders (step p s (GumResolved i w)) =
         recorders s @
           [\<lparr>r_stream = length (streams s),
             r_mime = (if w then Some ''video/webm'' else None),
             r_state = Recording, r_stop_queued = False\<rparr>]"
    using start idle by (simp add: fields)
  have b: "q_reviewMode (acquisitions s ! i) \<or> q_recording (acquisitions s ! i) \<longrightarrow>
       recorders (step p s (GumResolved i w)) = recorders s \<and>
       mediaRecorderRef (step p s (GumResolved i w)) = mediaRecorderRef s \<and>
       chunksRef (step p s (GumResolved i w)) = chunksRef s \<and>
       recording (step p s (GumResolved i w)) = recording s"
    using skip by (auto simp: fields autostart_def)
  from a b show ?thesis
    unfolding s_def by blast
qed

lemma recorder_exception_sets_cameraError:
  "deliverable fire_props (mount fire_props) [GumResolvedThrows 0 ConstructorThrows] \<and>
   cameraError (exec fire_props [GumResolvedThrows 0 ConstructorThrows]) \<and>
   \<not> recording (exec fire_props [GumResolvedThrows 0 ConstructorThrows]) \<and>
   streamRef (exec fire_props [GumResolvedThrows 0 ConstructorThrows]) = Some 0 \<and>
   length (active_streams (exec fire_props [GumResolvedThrows 0 ConstructorThrows])) = 1 \<and>
   cameraError (exec fire_props [GumResolvedThrows 0 (StartThrows True)]) \<and>
   \<not> recording (exec fire_props [GumResolvedThrows 0 (StartThrows True)]) \<and>
   mediaRecorderRef (exec fire_props [GumResolvedThrows 0 (StartThrows True)]) = Some 0"
  by code_simp

section \<open>After a manual stop\<close>

lemma length_modify_at: "length (modify_at i f xs) = length xs"
  by (simp add: modify_at_def)

lemma nth_modify_at:
  "i < length xs \<Longrightarrow> modify_at j f xs ! i = (if i = j then f (xs ! i) else xs ! i)"
  by (simp add: modify_at_def)

lemma settled_no_stale: "list_all q_settled (acquisitions s) \<Longrightarrow> no_stale s"
  by (auto simp: no_stale_def list_all_iff)

lemma no_stale_settle:
  "list_all (\<lambda>q. q_settled q \<or> \<not> autostart q) qs \<Longrightarrow>
    list_all (\<lambda>q. q_settled q \<or> \<not> autostart q) (modify_at i (\<lambda>a. a\<lparr>q_settled := True\<rparr>) qs)"
  by (auto simp: modify_at_def list_all_length nth_list_update autostart_def)

lemma no_stale_outstanding:
  assumes "no_stale s" and "i < length (acquisitions s)"
    and "\<not> q_settled (acquisitions s ! i)"
  shows "\<not> autostart (acquisitions s ! i)"
  using assms by (auto simp: no_stale_def list_all_length)

lemma timeLeft_step_le: "timeLeft (step p s e) \<le> timeLeft s"
  by (cases e) (auto simp: step_event fields simp del: enabled.simps)

lemma timeLeft_run_le: "timeLeft (run p s es) \<le> timeLeft s"
proof (induction es arbitrary: s)
  case Nil
  then show ?case by (simp add: run_Nil)
next
  case (Cons e es)
  from Cons [of "step p s e"] timeLeft_step_le [of p s e] show ?case
    by (simp add: run_Cons)
qed

lemma halted_view: "halted s \<Longrightarrow> view s = ReviewScreen"
  by (simp add: halted_def view_def)

lemma halted_step:
  assumes "halted s"
  shows "halted (step p s e) \<and> timeLeft (step p s e) = timeLeft s"
proof (cases e)
  case (GumResolved i w)
  show ?thesis
  proof (cases "enabled s e")
    case True
    from True GumResolved have en: "i < length (acquisitions s)" "\<not> q_settled (acquisitions s ! i)"
      by simp_all
    from assms have "no_stale s"
      by (simp add: halted_def)
    from no_stale_outstanding [OF this en] have "\<not> autostart (acquisitions s ! i)" .
    with True GumResolved assms show ?thesis
      by (simp add: halted_def no_stale_def step_GumResolved fields no_stale_settle
          del: enabled.simps)
  next
    case False
    with assms show ?thesis by (simp add: step_def)
  qed
next
  case (GumResolvedThrows i f)
  show ?thesis
  proof (cases "enabled s e")
    case True
    from True GumResolvedThrows have en: "i < length (acquisitions s)" "\<not> q_settled (acquisitions s ! i)"
      by simp_all
    from assms have "no_stale s"
      by (simp add: halted_def)
    from no_stale_outstanding [OF this en] have "\<not> autostart (acquisitions s ! i)" .
    with True GumResolvedThrows assms show ?thesis
      by (simp add: halted_def no_stale_def step_GumResolvedThrows fields no_stale_settle
          del: enabled.simps)
  next
    case False
    with assms show ?thesis by (simp add: step_def)
  qed
next
  case (GumRejected i)
  with assms show ?thesis
    by (simp add: halted_def no_stale_def step_GumRejected fields no_stale_settle
        del: enabled.simps)
next
  case Tick
  then show ?thesis
    using assms by (simp add: step_Tick halted_def)
next
  case (DataAvailable r d)
  then show ?thesis
    using assms by (simp add: step_DataAvailable halted_def no_stale_def fields del: enabled.simps)
next
  case (RecorderStopped r)
  then show ?thesis
    using assms by (simp add: step_RecorderStopped halted_def no_stale_def fields del: enabled.simps)
next
  case ClickRetry
  then show ?thesis
    using assms halted_view [OF assms] by (simp add: step_ClickRetry)
next
  case ClickStop
  then show ?thesis
    using assms halted_view [OF assms] by (simp add: step_ClickStop)
next
  case ClickMute
  then show ?thesis
    using assms halted_view [OF assms] by (simp add: step_ClickMute)
next
  case ClickFlip
  then show ?thesis
    using assms halted_view [OF assms] by (simp add: step_ClickFlip)
next
  case (ClickSave t1 t2)
  then show ?thesis
    using assms by (simp add: step_ClickSave halted_def no_stale_def fields)
next
  case ClickDiscard
  then show ?thesis
    using assms by (simp add: step_ClickDiscard halted_def no_stale_def fields)
qed

lemma halted_run:
  "halted s \<Longrightarrow> halted (run p s es) \<and> timeLeft (run p s es) = timeLeft s"
proof (induction es arbitrary: s)
  case Nil
  then show ?case by (simp add: run_Nil)
next
  case (Cons e es)
  from halted_step [OF Cons.prems, of p e] Cons.IH [of "step p s e"]
  show ?case by (simp add: run_Cons)
qed

text \<open>While the \<open>stop\<close> event of recorder \<open>r\<close> is queued, every event either leaves it
  queued with the component still recording, or puts the component into review for good.\<close>

lemma stopping_step:
  assumes "stopping r s"
  shows "stopping r (step p s e) \<or> halted (step p s e)"
proof -
  have ok: "timer_ok (step p s e)"
    using assms by (simp add: stopping_def timer_ok_step)
  show ?thesis
  proof (cases e)
    case (GumResolved i w)
    show ?thesis
    proof (cases "enabled s e")
      case True
      from True GumResolved have en: "i < length (acquisitions s)" "\<not> q_settled (acquisitions s ! i)"
        by simp_all
      from assms have "no_stale s"
        by (simp add: stopping_def)
      from no_stale_outstanding [OF this en] have "\<not> autostart (acquisitions s ! i)" .
      with True GumResolved assms ok show ?thesis
        by (simp add: stopping_def no_stale_def step_GumResolved fields no_stale_settle
            del: enabled.simps)
    next
      case False
      with assms show ?thesis by (simp add: step_def)
    qed
  next
    case (GumResolvedThrows i f)
    show ?thesis
    proof (cases "enabled s e")
      case True
      from True GumResolvedThrows have en: "i < length (acquisitions s)" "\<not> q_settled (acquisitions s ! i)"
        by simp_all
      from assms have "no_stale s"
        by (simp add: stopping_def)
      from no_stale_outstanding [OF this en] have "\<not> autostart (acquisitions s ! i)" .
      with True GumResolvedThrows assms ok show ?thesis
        by (simp add: stopping_def no_stale_def step_GumResolvedThrows fields no_stale_settle
            del: enabled.simps)
    next
      case False
      with assms show ?thesis by (simp add: step_def)
    qed
  next
    case (GumRejected i)
    with assms ok show ?thesis
      by (simp add: stopping_def no_stale_def step_GumRejected fields no_stale_settle
          del: enabled.simps)
  next
    case Tick
    with assms ok show ?thesis
      by (auto simp: stopping_def no_stale_def step_Tick fields length_modify_at nth_modify_at
          split: option.splits)
  next
    case (DataAvailable r' d)
    with assms ok show ?thesis
      by (simp add: stopping_def no_stale_def step_DataAvailable fields del: enabled.simps)
  next
    case (RecorderStopped r')
    with assms ok show ?thesis
      by (simp add: stopping_def halted_def no_stale_def step_RecorderStopped fields
          del: enabled.simps)
  next
    case ClickRetry
    with assms ok show ?thesis
      by (simp add: stopping_def no_stale_def step_ClickRetry fields)
  next
    case ClickStop
    with assms ok show ?thesis
      by (auto simp: stopping_def no_stale_def step_ClickStop fields length_modify_at
          nth_modify_at split: option.splits)
  next
    case ClickMute
    with assms ok show ?thesis
      by (simp add: stopping_def no_stale_def step_ClickMute fields)
  next
    case ClickFlip
    with assms ok show ?thesis
      by (simp add: stopping_def no_stale_def step_ClickFlip fields autostart_def)
  next
    case (ClickSave t1 t2)
    with assms ok show ?thesis
      by (simp add: stopping_def no_stale_def step_ClickSave fields)
  next
    case ClickDiscard
    with assms ok show ?thesis
      by (simp add: stopping_def no_stale_def step_ClickDiscard fields)
  qed
qed

lemma stopping_run:
  "stopping r s \<or> halted s \<Longrightarrow> stopping r (run p s es) \<or> halted (run p s es)"
proof (induction es arbitrary: s)
  case Nil
  then show ?case by (simp add: run_Nil)
next
  case (Cons e es)
  from Cons.prems have "stopping r (step p s e) \<or> halted (step p s e)"
    using stopping_step [of r s p e] halted_step [of s p e] by blast
  from Cons.IH [OF this] show ?case
    by (simp add: run_Cons)
qed

lemma stopping_tick_or_data:
  assumes "stopping r s" and "tick_or_data e"
  shows "stopping r (step p s e) \<and>
    timeLeft (step p s e) = (if e = Tick then max 0 (timeLeft s - 1) else timeLeft s)"
proof -
  have ok: "timer_ok (step p s e)"
    using assms by (simp add: stopping_def timer_ok_step)
  from assms(2) show ?thesis
  proof (cases e)
    case Tick
    with assms ok show ?thesis
      by (auto simp: stopping_def no_stale_def timer_ok_def step_Tick fields length_modify_at
          nth_modify_at split: option.splits)
  next
    case (DataAvailable r' d)
    with assms ok show ?thesis
      by (simp add: stopping_def no_stale_def step_DataAvailable fields del: enabled.simps)
  qed simp_all
qed

lemma stopping_window:
  "stopping r s \<Longrightarrow> list_all tick_or_data es \<Longrightarrow>
    stopping r (run p s es) \<and>
    timeLeft (run p s es) = max 0 (timeLeft s - int (count_list es Tick))"
proof (induction es arbitrary: s)
  case Nil
  then show ?case by (simp add: run_Nil stopping_def timer_ok_def)
next
  case (Cons e es)
  from Cons.prems have e: "tick_or_data e" and es: "list_all tick_or_data es"
    by simp_all
  from stopping_tick_or_data [OF Cons.prems(1) e, of p]
  have a: "stopping r (step p s e)"
    "timeLeft (step p s e) = (if e = Tick then max 0 (timeLeft s - 1) else timeLeft s)"
    by simp_all
  from Cons.IH [OF a(1) es] a(2) show ?case
    by (auto simp: run_Cons)
qed

lemma stop_click_stopping:
  assumes "timer_ok s" "view s = RecordingScreen" "recording s"
    "mediaRecorderRef s = Some r" "r < length (recorders s)"
    "r_state (recorders s ! r) = Recording" "list_all q_settled (acquisitions s)"
  shows "stopping r (step p s ClickStop) \<and> timeLeft (step p s ClickStop) = timeLeft s"
  using assms settled_no_stale [OF assms(7)]
  by (simp add: stopping_def no_stale_def step_ClickStop fields modify_at_def timer_ok_def)

lemma stopped_halted:
  assumes "stopping r s \<or> halted s"
  shows "halted (step p s (RecorderStopped r)) \<and>
    timeLeft (step p s (RecorderStopped r)) = timeLeft s"
proof (cases "halted s")
  case True
  then show ?thesis by (rule halted_step)
next
  case False
  with assms have s: "stopping r s" by simp
  then have "enabled s (RecorderStopped r)"
    by (simp add: stopping_def)
  with s show ?thesis
    by (simp add: stopping_def halted_def no_stale_def step_RecorderStopped fields
        del: enabled.simps)
qed

lemma save_on_review:
  assumes "view s = ReviewScreen"
  shows "\<exists>u. calls (step p s (ClickSave t1 t2)) =
           calls s @
             [OnSave \<lparr>ev_id = VID t1, ev_url = u, ev_timestamp = ISO t2,
                      ev_duration = 60 - timeLeft s,
                      ev_emergencyType = emergencyType p,
                      ev_location = location p\<rparr>]"
proof -
  from assms obtain u where "videoUrl s = Some u"
    by (auto simp: view_def split: if_splits)
  with assms show ?thesis
    by (simp add: step_ClickSave fields)
qed

section \<open>Properties\<close>

text \<open>
  C1 (the code differs). After a failed acquisition the Error screen is shown; the Retry
  button clears \<open>cameraError\<close> and nothing else. The camera effect depends on
  \<open>facingMode\<close> only, so \<open>startCamera\<close> is not called: no \<open>getUserMedia\<close> request is
  made, every request is settled, there is no stream and no recorder, and the component
  shows the Recording screen without recording. In any state the Retry step leaves the
  list of acquisitions as it is.
\<close>

theorem retry_does_not_reacquire:
  "deliverable p (mount p) [GumRejected 0, ClickRetry] \<and>
   view (exec p [GumRejected 0]) = ErrorScreen \<and>
   view (exec p [GumRejected 0, ClickRetry]) = RecordingScreen \<and>
   cameraError (exec p [GumRejected 0, ClickRetry]) = False \<and>
   acquisitions (exec p [GumRejected 0, ClickRetry]) = acquisitions (exec p [GumRejected 0]) \<and>
   list_all q_settled (acquisitions (exec p [GumRejected 0, ClickRetry])) \<and>
   streamRef (exec p [GumRejected 0, ClickRetry]) = None \<and>
   recorders (exec p [GumRejected 0, ClickRetry]) = [] \<and>
   recording (exec p [GumRejected 0, ClickRetry]) = False \<and>
   acquisitions (step p s ClickRetry) = acquisitions s"
  by (simp add: unfold_all)

text \<open>
  C2 as stated fails. After a facing-mode switch during a recording and the acquisition
  of the new stream, the fragment buffered before the switch is still in the buffer, the
  countdown stands where it stood (57, not 60), and there is still one recorder. When
  the old recorder's \<open>stop\<close> event arrives, either because its tracks have ended or
  after a manual stop, Confirm-Save emits an artifact whose clip holds that fragment.
\<close>

theorem facing_switch_counterexample:
  "deliverable fire_props (mount fire_props)
     (switch_trace @ [RecorderStopped 0, ClickSave 1700 1701]) \<and>
   deliverable fire_props (mount fire_props)
     (switch_trace @ [Tick, ClickStop, RecorderStopped 0, ClickSave 1700 1701]) \<and>
   view (exec fire_props recording_trace) = RecordingScreen \<and>
   recording (exec fire_props recording_trace) \<and>
   chunksRef (exec fire_props recording_trace) = [fragment] \<and>
   timeLeft (exec fire_props recording_trace) = 57 \<and>
   recording (exec fire_props switch_trace) \<and>
   streamRef (exec fire_props switch_trace) = Some 1 \<and>
   chunksRef (exec fire_props switch_trace) = [fragment] \<and>
   timeLeft (exec fire_props switch_trace) = 57 \<and>
   length (recorders (exec fire_props switch_trace)) = 1 \<and>
   calls (exec fire_props (switch_trace @ [RecorderStopped 0, ClickSave 1700 1701])) =
     [OnSave \<lparr>ev_id = VID 1700, ev_url = ObjectURL \<lparr>bytes = [7, 7, 7], mime = ''video/webm''\<rparr>,
              ev_timestamp = ISO 1701, ev_duration = 3,
              ev_emergencyType = ''fire'', ev_location = (52, 13)\<rparr>] \<and>
   calls (exec fire_props
       (switch_trace @ [Tick, ClickStop, RecorderStopped 0, ClickSave 1700 1701])) =
     [OnSave \<lparr>ev_id = VID 1700, ev_url = ObjectURL \<lparr>bytes = [7, 7, 7], mime = ''video/webm''\<rparr>,
              ev_timestamp = ISO 1701, ev_duration = 4,
              ev_emergencyType = ''fire'', ev_location = (52, 13)\<rparr>]"
  by code_simp

text \<open>
  C2, amended. In Recording state a facing-mode switch emits no artifact, releases the
  current session and requests a new one with the opposite facing mode, but it does not
  cancel the recording in flight: the recorder, the buffered fragments and the remaining
  time are left as they are. When the new session is acquired it becomes the referenced
  session, and recording is not restarted on it, because the auto-start test closed over
  \<open>recording = true\<close>: buffer, recorder and remaining time are again unchanged.
\<close>

theorem facing_switch_keeps_recording:
  assumes "recording s" and "view s = RecordingScreen"
    and "s1 = step p s ClickFlip"
    and "s2 = step p s1 (GumResolved (length (acquisitions s)) w)"
  shows "facingMode s1 = (if facingMode s = User then Environment else User) \<and>
    streamRef s1 = None \<and>
    streams s1 =
      (case streamRef s of
         None \<Rightarrow> streams s
       | Some i \<Rightarrow> modify_at i (\<lambda>m. m\<lparr>s_ended := True\<rparr>) (streams s)) \<and>
    acquisitions s1 =
      acquisitions s @
        [\<lparr>q_facingMode = facingMode s1, q_reviewMode = reviewMode s, q_recording = True,
          q_timeLeft = timeLeft s, q_settled = False\<rparr>] \<and>
    recording s1 \<and> timeLeft s1 = timeLeft s \<and> chunksRef s1 = chunksRef s \<and>
    recorders s1 = recorders s \<and> mediaRecorderRef s1 = mediaRecorderRef s \<and>
    calls s1 = calls s \<and>
    streamRef s2 = Some (length (streams s)) \<and>
    streams s2 = streams s1 @ [\<lparr>s_facing = facingMode s1, s_ended = False, s_audio = True\<rparr>] \<and>
    recording s2 \<and> timeLeft s2 = timeLeft s \<and> chunksRef s2 = chunksRef s \<and>
    recorders s2 = recorders s \<and> mediaRecorderRef s2 = mediaRecorderRef s \<and>
    calls s2 = calls s"
proof -
  have s1: "s1 = camera_effect (toggleCamera s)"
    using assms(2,3) by (simp add: step_ClickFlip)
  have a: "facingMode s1 = (if facingMode s = User then Environment else User)"
    "streamRef s1 = None"
    "streams s1 =
      (case streamRef s of
         None \<Rightarrow> streams s
       | Some i \<Rightarrow> modify_at i (\<lambda>m. m\<lparr>s_ended := True\<rparr>) (streams s))"
    "acquisitions s1 =
      acquisitions s @
        [\<lparr>q_facingMode = facingMode s1, q_reviewMode = reviewMode s, q_recording = True,
          q_timeLeft = timeLeft s, q_settled = False\<rparr>]"
    "recording s1" "timeLeft s1 = timeLeft s" "chunksRef s1 = chunksRef s"
    "recorders s1 = recorders s" "mediaRecorderRef s1 = mediaRecorderRef s"
    "calls s1 = calls s"
    using assms(1) by (simp_all add: s1 fields split: option.splits)
  have len: "length (streams s1) = length (streams s)"
    by (simp add: a(3) length_modify_at split: option.splits)
  have q: "acquisitions s1 ! length (acquisitions s) =
      \<lparr>q_facingMode = facingMode s1, q_reviewMode = reviewMode s, q_recording = True,
        q_timeLeft = timeLeft s, q_settled = False\<rparr>"
    by (simp add: a(4))
  have en: "enabled s1 (GumResolved (length (acquisitions s)) w)"
    by (simp add: a(4))
  have no: "\<not> autostart (acquisitions s1 ! length (acquisitions s))"
    by (simp add: q autostart_def)
  have s2: "s2 = startCamera_resume (length (acquisitions s)) (Starts w) s1"
    using assms(4) en no by (simp add: step_GumResolved del: enabled.simps)
  have b: "streamRef s2 = Some (length (streams s))"
    "streams s2 = streams s1 @ [\<lparr>s_facing = facingMode s1, s_ended = False, s_audio = True\<rparr>]"
    "recording s2" "timeLeft s2 = timeLeft s" "chunksRef s2 = chunksRef s"
    "recorders s2 = recorders s" "mediaRecorderRef s2 = mediaRecorderRef s"
    "calls s2 = calls s"
    using no a(5-10) len q by (simp_all add: s2 fields)
  from a b show ?thesis
    by simp
qed

theorem facing_switch_keeps_recording_witness:
  "recording (exec fire_props recording_trace) \<and>
   view (exec fire_props recording_trace) = RecordingScreen \<and>
   chunksRef (step fire_props (step fire_props (exec fire_props recording_trace) ClickFlip)
      (GumResolved (length (acquisitions (exec fire_props recording_trace))) True)) = [fragment] \<and>
   timeLeft (step fire_props (step fire_props (exec fire_props recording_trace) ClickFlip)
      (GumResolved (length (acquisitions (exec fire_props recording_trace))) True)) = 57 \<and>
   streamRef (step fire_props (step fire_props (exec fire_props recording_trace) ClickFlip)
      (GumResolved (length (acquisitions (exec fire_props recording_trace))) True)) = Some 1"
proof -
  have h: "recording (exec fire_props recording_trace)"
    "view (exec fire_props recording_trace) = RecordingScreen"
    by code_simp+
  have v: "chunksRef (exec fire_props recording_trace) = [fragment]"
    "timeLeft (exec fire_props recording_trace) = 57"
    "length (streams (exec fire_props recording_trace)) = 1"
    by code_simp+
  from facing_switch_keeps_recording [OF h refl refl, of fire_props True] h v
  show ?thesis by simp
qed

text \<open>
  C3. Confirm-Save on the review screen calls \<open>onSave\<close> exactly once: the step appends one
  call to the log and changes nothing else. The artifact carries the clip's URL, the two
  clock readings as identifier and timestamp, \<open>duration = 60 - timeLeft\<close>, and the
  \<open>emergencyType\<close> and \<open>location\<close> of the props.
\<close>

theorem confirm_save_emits_artifact:
  assumes "view s = ReviewScreen"
  shows "\<exists>u. videoUrl s = Some u \<and>
           step p s (ClickSave t1 t2) =
             s\<lparr>calls := calls s @
                 [OnSave \<lparr>ev_id = VID t1, ev_url = u, ev_timestamp = ISO t2,
                          ev_duration = 60 - timeLeft s,
                          ev_emergencyType = emergencyType p,
                          ev_location = location p\<rparr>]\<rparr>"
proof -
  from assms obtain u where u: "videoUrl s = Some u"
    by (auto simp: view_def split: if_splits)
  with assms show ?thesis
    by (simp add: step_ClickSave handleSave_def)
qed

theorem confirm_save_emits_artifact_witness:
  "view (exec fire_props review_trace) = ReviewScreen \<and>
   calls (step fire_props (exec fire_props review_trace) (ClickSave 1700 1701)) =
     [OnSave \<lparr>ev_id = VID 1700, ev_url = ObjectURL \<lparr>bytes = [7, 7, 7], mime = ''video/webm''\<rparr>,
              ev_timestamp = ISO 1701, ev_duration = 1,
              ev_emergencyType = ''fire'', ev_location = (52, 13)\<rparr>]"
proof -
  have v: "view (exec fire_props review_trace) = ReviewScreen"
    by code_simp
  have t: "timeLeft (exec fire_props review_trace) = 59"
    by code_simp
  have c: "calls (exec fire_props review_trace) = []"
    by code_simp
  have u: "videoUrl (exec fire_props review_trace) =
      Some (ObjectURL \<lparr>bytes = [7, 7, 7], mime = ''video/webm''\<rparr>)"
    by code_simp
  have e: "emergencyType fire_props = ''fire''" "location fire_props = (52, 13)"
    by (simp_all add: fire_props_def)
  from confirm_save_emits_artifact [OF v, of fire_props 1700 1701] v t c u e
  show ?thesis by auto
qed

text \<open>
  C4 (the code differs). The countdown is never negative, but the stop is not triggered
  exactly once in every execution. The user flips the camera while the first acquisition
  is outstanding; recording starts on the first stream and runs for 60 seconds. The
  countdown reaches zero, the timer effect calls \<open>stopRecording\<close> (first call), and the
  recorder's \<open>stop\<close> event puts the component into review. When the second acquisition
  is then fulfilled, its auto-start test passes on the values it closed over, recording
  is set again with the countdown at zero, and the timer effect calls \<open>stopRecording\<close>
  a second time: a second \<open>stop\<close> event is queued.
\<close>

theorem expiry_stops_twice:
  "deliverable fire_props (mount fire_props) expiry_restart_trace \<and>
   timeLeft (exec fire_props expiry_trace) = 0 \<and>
   recording (exec fire_props expiry_trace) \<and>
   timerStops (exec fire_props expiry_trace) = 1 \<and>
   view (exec fire_props (expiry_trace @ [RecorderStopped 0])) = ReviewScreen \<and>
   timerStops (exec fire_props (expiry_trace @ [RecorderStopped 0])) = 1 \<and>
   timeLeft (exec fire_props expiry_restart_trace) = 0 \<and>
   recording (exec fire_props expiry_restart_trace) \<and>
   timerStops (exec fire_props expiry_restart_trace) = 2 \<and>
   enabled (exec fire_props expiry_restart_trace) (RecorderStopped 1)"
  by code_simp

text \<open>
  C5 (the code differs). \<open>startCamera\<close> releases the referenced stream before its
  \<open>await\<close>, not when the new stream arrives. When the user flips the camera while the
  first acquisition is still outstanding and both acquisitions then succeed, two streams
  are active and only the second is referenced; when the second is rejected instead,
  \<open>cameraError\<close> is set while the first stream stays active.
\<close>

theorem overlapping_acquisitions_leak:
  "deliverable p (mount p) [ClickFlip, GumResolved 0 w, GumResolved 1 w'] \<and>
   deliverable p (mount p) [ClickFlip, GumResolved 0 w, GumRejected 1] \<and>
   length (active_streams (exec p [ClickFlip, GumResolved 0 w, GumResolved 1 w'])) = 2 \<and>
   streamRef (exec p [ClickFlip, GumResolved 0 w, GumResolved 1 w']) = Some 1 \<and>
   cameraError (exec p [ClickFlip, GumResolved 0 w, GumRejected 1]) = True \<and>
   length (active_streams (exec p [ClickFlip, GumResolved 0 w, GumRejected 1])) = 1"
  by (simp add: unfold_all active_streams_def)


text \<open>
  C6 as stated fails. \<open>stopRecording\<close> only calls \<open>stop()\<close>; \<open>recording\<close> turns false,
  and the interval is cleared, when the recorder's \<open>stop\<close> event is handled. A tick
  that is delivered in between still counts: the stop is issued with 59 seconds left,
  the countdown goes on to 58, and the artifact reports a duration of 2, not 1.
\<close>

theorem manual_stop_late_tick_counterexample:
  "deliverable fire_props (mount fire_props) (late_tick_trace @ [ClickSave 1700 1701]) \<and>
   view (exec fire_props second_trace) = RecordingScreen \<and>
   recording (exec fire_props second_trace) \<and>
   timeLeft (exec fire_props second_trace) = 59 \<and>
   enabled (exec fire_props (second_trace @ [ClickStop])) Tick \<and>
   timeLeft (exec fire_props (second_trace @ [ClickStop, Tick])) = 58 \<and>
   calls (exec fire_props (late_tick_trace @ [ClickSave 1700 1701])) =
     [OnSave \<lparr>ev_id = VID 1700, ev_url = ObjectURL \<lparr>bytes = [7, 7, 7], mime = ''video/webm''\<rparr>,
              ev_timestamp = ISO 1701, ev_duration = 2,
              ev_emergencyType = ''fire'', ev_location = (52, 13)\<rparr>]"
  by code_simp

text \<open>
  C6, amended. Take a manual stop issued before expiry in any execution, while the
  referenced recorder is recording and no acquisition is outstanding, and let any events
  \<open>mid\<close> be delivered before the recorder's \<open>stop\<close> event. Once that event has been
  handled the timer is halted: the remaining time is the one at that instant, which is
  not negative and not above the one at the stop request; when \<open>mid\<close> holds only ticks
  and data events it is the remaining time at the stop request less the ticks (not
  below zero). The review screen is shown, and in every continuation no tick can be
  delivered, \<open>timeLeft\<close> keeps that value, and Confirm-Save reports
  \<open>duration = 60 - timeLeft\<close> for it.
\<close>

theorem manual_stop_freezes_duration:
  assumes "s = exec p es"
    and "view s = RecordingScreen" and "recording s" and "0 < timeLeft s"
    and "mediaRecorderRef s = Some r" and "r < length (recorders s)"
    and "r_state (recorders s ! r) = Recording"
    and "list_all q_settled (acquisitions s)"
    and "s1 = run p (step p s ClickStop) mid"
    and "s2 = step p s1 (RecorderStopped r)"
  shows "timeLeft s2 = timeLeft s1 \<and> timeLeft s1 \<le> timeLeft s \<and> 0 \<le> timeLeft s2 \<and>
    (if list_all tick_or_data mid
     then timeLeft s2 = max 0 (timeLeft s - int (count_list mid Tick))
     else timeLeft s2 \<le> timeLeft s) \<and>
    view s2 = ReviewScreen \<and> \<not> recording s2 \<and> \<not> interval s2 \<and>
    (\<forall>es'. \<not> enabled (run p s2 es') Tick \<and> timeLeft (run p s2 es') = timeLeft s2) \<and>
    (\<forall>es' t1 t2. \<exists>u.
       calls (step p (run p s2 es') (ClickSave t1 t2)) =
         calls (run p s2 es') @
           [OnSave \<lparr>ev_id = VID t1, ev_url = u, ev_timestamp = ISO t2,
                    ev_duration = 60 - timeLeft s2,
                    ev_emergencyType = emergencyType p,
                    ev_location = location p\<rparr>])"
proof -
  have ok: "timer_ok s"
    using assms(1) by (simp add: timer_ok_exec)
  from stop_click_stopping [OF ok assms(2,3,5,6,7,8), of p]
  have a: "stopping r (step p s ClickStop)" "timeLeft (step p s ClickStop) = timeLeft s"
    by simp_all
  from stopping_run [of r "step p s ClickStop" p mid] a(1) assms(9)
  have b: "stopping r s1 \<or> halted s1"
    by simp
  have le: "timeLeft s1 \<le> timeLeft s"
    using timeLeft_run_le [of p "step p s ClickStop" mid] a(2) assms(9) by simp
  from stopped_halted [OF b, of p] assms(10)
  have c: "halted s2" "timeLeft s2 = timeLeft s1"
    by simp_all
  have "timer_ok s1"
    using timer_ok_run [OF timer_ok_step [OF ok, of p ClickStop], of p mid] assms(9) by simp
  then have nonneg: "0 \<le> timeLeft s1"
    by (simp add: timer_ok_def)
  have w: "timeLeft s1 = max 0 (timeLeft s - int (count_list mid Tick))"
    if "list_all tick_or_data mid"
    using stopping_window [OF a(1) that, of p] a(2) assms(9) by simp
  have d: "\<not> enabled (run p s2 es') Tick \<and> timeLeft (run p s2 es') = timeLeft s2" for es'
    using halted_run [OF c(1), of p es'] by (simp add: halted_def)
  have e: "\<exists>u. calls (step p (run p s2 es') (ClickSave t1 t2)) =
         calls (run p s2 es') @
           [OnSave \<lparr>ev_id = VID t1, ev_url = u, ev_timestamp = ISO t2,
                    ev_duration = 60 - timeLeft s2,
                    ev_emergencyType = emergencyType p,
                    ev_location = location p\<rparr>]" for es' t1 t2
  proof -
    have h: "halted (run p s2 es')" "timeLeft (run p s2 es') = timeLeft s2"
      using halted_run [OF c(1), of p es'] by simp_all
    from save_on_review [OF halted_view [OF h(1)], of p t1 t2] h(2)
    show ?thesis by simp
  qed
  from c le nonneg w d e halted_view [OF c(1)] show ?thesis
    by (simp add: halted_def)
qed

theorem manual_stop_freezes_duration_witness:
  "view (exec fire_props second_trace) = RecordingScreen \<and>
   recording (exec fire_props second_trace) \<and>
   timeLeft (exec fire_props second_trace) = 59 \<and>
   list_all q_settled (acquisitions (exec fire_props second_trace)) \<and>
   timeLeft (step fire_props
      (run fire_props (step fire_props (exec fire_props second_trace) ClickStop)
         [Tick, DataAvailable 0 fragment])
      (RecorderStopped 0)) = 58 \<and>
   view (step fire_props
      (run fire_props (step fire_props (exec fire_props second_trace) ClickStop)
         [Tick, DataAvailable 0 fragment])
      (RecorderStopped 0)) = ReviewScreen"
proof -
  have h: "view (exec fire_props second_trace) = RecordingScreen"
    "recording (exec fire_props second_trace)"
    "mediaRecorderRef (exec fire_props second_trace) = Some 0"
    "0 < length (recorders (exec fire_props second_trace))"
    "r_state (recorders (exec fire_props second_trace) ! 0) = Recording"
    "list_all q_settled (acquisitions (exec fire_props second_trace))"
    by code_simp+
  have t: "timeLeft (exec fire_props second_trace) = 59"
    by code_simp
  then have p: "0 < timeLeft (exec fire_props second_trace)"
    by simp
  from manual_stop_freezes_duration
    [OF refl h(1,2) p h(3,4,5,6) refl refl, of "[Tick, DataAvailable 0 fragment]"] h t
  show ?thesis by simp
qed

text \<open>
  C7. In every execution the rendered screen is the function \<open>select_screen\<close> of the
  flags \<open>cameraError\<close>, \<open>recording\<close> and \<open>reviewMode\<close>, and the three \<open>return\<close>
  statements are taken first match first: the Review screen exactly when \<open>reviewMode\<close>
  holds and a clip URL exists, otherwise the Error screen exactly when \<open>cameraError\<close>
  holds, otherwise the Recording screen.
\<close>

theorem view_is_select_screen:
  "view (exec p es) =
     select_screen (cameraError (exec p es)) (recording (exec p es)) (reviewMode (exec p es)) \<and>
   (view (exec p es) = ReviewScreen) =
     (reviewMode (exec p es) \<and> videoUrl (exec p es) \<noteq> None) \<and>
   (view (exec p es) = ErrorScreen) =
     (\<not> (reviewMode (exec p es) \<and> videoUrl (exec p es) \<noteq> None) \<and> cameraError (exec p es)) \<and>
   (view (exec p es) = RecordingScreen) =
     (\<not> (reviewMode (exec p es) \<and> videoUrl (exec p es) \<noteq> None) \<and> \<not> cameraError (exec p es))"
  using clip_ok_exec [of p es]
  by (auto simp: view_def select_screen_def clip_ok_def)

text \<open>
  C8 (the code differs). The auto-start test reads the values \<open>startCamera\<close> closed over
  when it was called, not the state of the component when the stream arrives. The user
  flips the camera while the first acquisition is outstanding. In the first execution
  the component is recording on the first stream, with a fragment buffered, when the
  second acquisition is fulfilled: a second recorder is started and referenced and the
  buffer is emptied, while the first recorder still records. In the second execution
  the component is in review mode when the second acquisition is fulfilled: a recorder
  is started all the same, and \<open>recording\<close> is set again.
\<close>

theorem stale_acquisition_starts_recorder:
  "deliverable fire_props (mount fire_props) (stale_recording_trace @ [GumResolved 1 True]) \<and>
   recording (exec fire_props stale_recording_trace) \<and>
   \<not> reviewMode (exec fire_props stale_recording_trace) \<and>
   mediaRecorderRef (exec fire_props stale_recording_trace) = Some 0 \<and>
   chunksRef (exec fire_props stale_recording_trace) = [fragment] \<and>
   mediaRecorderRef (exec fire_props (stale_recording_trace @ [GumResolved 1 True])) = Some 1 \<and>
   chunksRef (exec fire_props (stale_recording_trace @ [GumResolved 1 True])) = [] \<and>
   map r_state (recorders (exec fire_props (stale_recording_trace @ [GumResolved 1 True]))) =
     [Recording, Recording] \<and>
   deliverable fire_props (mount fire_props) (stale_review_trace @ [GumResolved 1 True]) \<and>
   view (exec fire_props stale_review_trace) = ReviewScreen \<and>
   reviewMode (exec fire_props stale_review_trace) \<and>
   \<not> recording (exec fire_props stale_review_trace) \<and>
   recording (exec fire_props (stale_review_trace @ [GumResolved 1 True])) \<and>
   interval (exec fire_props (stale_review_trace @ [GumResolved 1 True])) \<and>
   map r_state (recorders (exec fire_props (stale_review_trace @ [GumResolved 1 True]))) =
     [Inactive, Recording]"
  by code_simp

text \<open>
  C9. If the Confirm-Save handler runs while \<open>videoUrl\<close> is \<open>null\<close> it does nothing: the
  state, and with it the log of \<open>onSave\<close> calls, is unchanged.
\<close>

theorem handleSave_without_clip:
  "videoUrl s = None \<Longrightarrow> handleSave p t1 t2 s = s"
  by (simp add: handleSave_def)

theorem handleSave_without_clip_witness:
  "videoUrl (mount fire_props) = None \<and>
   handleSave fire_props 1700 1701 (mount fire_props) = mount fire_props"
proof -
  have v: "videoUrl (mount fire_props) = None"
    by (simp add: mount_def fields initial_def)
  from handleSave_without_clip [OF v] v show ?thesis
    by simp
qed

text \<open>
  C10. In every execution each fragment in the clip buffer has a size greater than zero;
  a data event of size zero leaves the buffer as it is; and the \<open>stop\<close> event of a
  recorder finalizes the clip as the concatenation of the buffer, so only of non-empty
  fragments.
\<close>

theorem buffered_fragments_nonempty:
  "list_all (\<lambda>d. 0 < size_of d) (chunksRef (exec p es)) \<and>
   chunksRef (step p (exec p es) (DataAvailable r \<lparr>bytes = [], mime = m\<rparr>)) =
     chunksRef (exec p es) \<and>
   videoUrl (step p (exec p es) (RecorderStopped r)) =
     (if enabled (exec p es) (RecorderStopped r)
      then Some (ObjectURL (new_Blob (chunksRef (exec p es)) ''video/webm''))
      else videoUrl (exec p es))"
proof -
  have "list_all (\<lambda>d. 0 < size_of d) (chunksRef (exec p es))"
    using chunks_ok_exec [of p es] by (simp add: chunks_ok_def)
  moreover have "chunksRef (step p (exec p es) (DataAvailable r \<lparr>bytes = [], mime = m\<rparr>)) =
      chunksRef (exec p es)"
    by (simp add: step_DataAvailable fields size_of_def del: enabled.simps)
  moreover have "videoUrl (step p (exec p es) (RecorderStopped r)) =
     (if enabled (exec p es) (RecorderStopped r)
      then Some (ObjectURL (new_Blob (chunksRef (exec p es)) ''video/webm''))
      else videoUrl (exec p es))"
    by (simp add: step_RecorderStopped fields del: enabled.simps)
  ultimately show ?thesis by simp
qed

theorem buffered_fragments_nonempty_witness:
  "chunksRef (exec fire_props data_trace) = [fragment] \<and>
   list_all (\<lambda>d. 0 < size_of d) (chunksRef (exec fire_props data_trace))"
proof -
  have "chunksRef (exec fire_props data_trace) = [fragment]"
    by code_simp
  with buffered_fragments_nonempty [of fire_props data_trace] show ?thesis
    by simp
qed

end
